theory Spec2Isabelle
  imports Main "HOL-Library.Word" "HOL-Library.Signed_Division"
begin

unbundle bit_operations_syntax

section \<open>Data model of the SomaFM player (src/src/main.cpp)\<close>

text \<open>
  The globals of \<^verbatim>\<open>main.cpp\<close> are split over two records. \<open>player\<close> holds what the
  control context (Core 1: key handlers) and the audio task (Core 0) exchange: the station
  directory, the indices, the command slot \<open>aCmd\<close>/\<open>aTarget\<close>, the status flags and the
  three session objects. \<open>sink\<close> holds the \<open>DirectI2SOutput\<close> object together with the
  visualizer globals and the accumulators that only \<open>ConsumeSample\<close> writes.

  C \<open>int\<close> variables are modelled as \<open>int\<close>: every one of them is a counter or an index that
  the code keeps inside a small range (\<open>sink_ok\<close> below, for the sink), and signed overflow
  has no defined wrap-around in C++. The fixed-width unsigned and 16-bit values, where the
  source relies on truncation, are words. \<open>%\<close> on \<open>int\<close> is \<open>smod\<close> (truncating).
\<close>

record station =
  id_st :: string
  title :: string
  desc :: string
  genre :: string
  imageUrl :: string
  color :: "16 word"
  listeners :: int
  fav :: bool

datatype AppState = STATE_BOOT | STATE_BROWSER | STATE_PLAYING | STATE_ERROR

datatype acmd = ACMD_NONE | ACMD_STOP | ACMD_PLAY

record player =
  stations :: "station list"
  selectedIdx :: int
  scrollOffset :: int
  playingIdx :: int
  volume :: "8 word"
  appState :: AppState
  nowTrack :: string
  audioSrc :: "string option"
  audioBuf :: "nat option"
  mp3 :: "bool option"
  aRunning :: bool
  aPaused :: bool
  aCmd :: acmd
  aTarget :: int
  tLastNP :: "32 word"
  tLastKey :: "32 word"
  visMode :: int
  logoData :: "8 word list option"
  logoDataLen :: nat
  logoForIdx :: int
  logoValid :: bool
  scrTitle_text :: string
  scrGenre_text :: string
  scrSong_text :: string
  prefs_last :: string
  prefs_favs :: string
  prefs_vol :: "8 word"
  prefs_vis :: "8 word"

text \<open>
  \<open>stations\<close> is the used prefix of the array \<open>stations[MAX_STATIONS]\<close>, so
  \<open>stationCount\<close> is its length. \<open>audioSrc\<close> is the stream source with its URL, \<open>audioBuf\<close>
  the buffer with its size, \<open>mp3\<close> the decoder with its \<open>isRunning()\<close> flag; \<open>None\<close> is
  \<open>nullptr\<close>.
\<close>

definition stationCount :: "player \<Rightarrow> int" where
  "stationCount s = int (length (stations s))"

definition VISIBLE_LINES :: int where
  "VISIBLE_LINES = (135 - 22 - 16) sdiv 15"

definition AUDIO_BUF_SIZE :: nat where
  "AUDIO_BUF_SIZE = 4096"

definition DEBOUNCE_MS :: "32 word" where
  "DEBOUNCE_MS = 180"

type_synonym sample = "16 word \<times> 16 word"

record sink =
  gainF2P6 :: "8 word"
  buf :: "16 word list"
  bp :: int
  i2s_out :: "16 word list list"
  visPeak :: "16 word"
  visBins :: "8 word list"
  visWave :: "8 word list"
  visWaveW :: int
  binAcc :: "32 word list"
  binIdx :: int
  binCnt :: int
  peakAcc :: "32 word"
  peakCnt :: int
  waveSub :: int

text \<open>
  \<open>i2s_out\<close> is the log of the blocks handed to \<open>i2s_write\<close>. \<open>visWave\<close> stores the
  \<open>int8_t\<close> entries as 8-bit words (read them with \<open>sint\<close>). \<open>gainF2P6\<close> is the
  \<open>uint8_t\<close> member of the library's \<open>AudioOutput\<close> base class.
\<close>

section \<open>Output sink and telemetry: \<open>DirectI2SOutput::ConsumeSample\<close>\<close>

text \<open>
  Lines 335-340: downmix and gain. The sum of two \<open>int16_t\<close> and the product with an 8-bit
  gain stay inside \<open>int32_t\<close>; \<open>/ 2\<close> truncates; \<open>>> 6\<close> is the arithmetic shift; the cast
  back to \<open>int16_t\<close> keeps the low 16 bits.
\<close>

definition downmix :: "bool \<Rightarrow> 8 word \<Rightarrow> sample \<Rightarrow> 16 word" where
  "downmix paused gain smp =
     (if paused then 0
      else let mono16 = (word_of_int ((sint (fst smp) + sint (snd smp)) sdiv 2) :: 16 word)
           in word_of_int ((sint mono16 * uint gain) div 2 ^ 6))"

text \<open>Line 345: \<open>uint16_t absMono = (mono < 0) ? -mono : mono\<close>.\<close>

definition absMono :: "16 word \<Rightarrow> 16 word" where
  "absMono mono16 =
     (if sint mono16 < 0 then word_of_int (- sint mono16) else word_of_int (sint mono16))"

text \<open>
  The body of \<open>ConsumeSample\<close> is a sequence of blocks, each given here as a function on
  the sink, in the order of the source. Lines 341-342: the sample goes to both channels of
  the output block.
\<close>

definition write_block :: "16 word \<Rightarrow> sink \<Rightarrow> sink" where
  "write_block mono16 k =
     (let k = k\<lparr>buf := (buf k)[nat (bp k) := mono16], bp := bp k + 1\<rparr>
      in k\<lparr>buf := (buf k)[nat (bp k) := mono16], bp := bp k + 1\<rparr>)"

text \<open>Lines 346-349: both accumulators take the magnitude.\<close>

definition accumulate :: "16 word \<Rightarrow> sink \<Rightarrow> sink" where
  "accumulate a k =
     (let k = k\<lparr>peakAcc := peakAcc k + ucast a, peakCnt := peakCnt k + 1\<rparr>
      in k\<lparr>binAcc := (binAcc k)[nat (binIdx k) := binAcc k ! nat (binIdx k) + ucast a],
            binCnt := binCnt k + 1\<rparr>)"

text \<open>Lines 351-356: a full window of 92 samples emits one bin and moves to the next.\<close>

definition emit_bin :: "sink \<Rightarrow> sink" where
  "emit_bin k =
     (if binCnt k \<ge> 92
      then k\<lparr>visBins := (visBins k)[nat (binIdx k) :=
                 ucast (min 255
                   (drop_bit 5 (binAcc k ! nat (binIdx k) div word_of_int (binCnt k))))],
             binAcc := (binAcc k)[nat (binIdx k) := 0],
             binCnt := 0,
             binIdx := (binIdx k + 1) smod 16\<rparr>
      else k)"

text \<open>Lines 357-361: the peak window of 735 samples.\<close>

definition emit_peak :: "sink \<Rightarrow> sink" where
  "emit_peak k =
     (if peakCnt k \<ge> 735
      then k\<lparr>visPeak := ucast (min 32767 (peakAcc k div word_of_int (peakCnt k))),
             peakAcc := 0, peakCnt := 0\<rparr>
      else k)"

text \<open>Lines 364-369: every 11th sample, its high byte goes into the waveform ring.\<close>

definition feed_wave :: "16 word \<Rightarrow> sink \<Rightarrow> sink" where
  "feed_wave mono16 k =
     (let k = k\<lparr>waveSub := waveSub k + 1\<rparr>
      in if waveSub k \<ge> 11
         then k\<lparr>waveSub := 0,
                visWave := (visWave k)[nat (visWaveW k) := word_of_int (sint mono16 div 2 ^ 8)],
                visWaveW := (visWaveW k + 1) smod 120\<rparr>
         else k)"

text \<open>Lines 371-375: a full block (\<open>BUF_SZ\<close> 512) is handed to \<open>i2s_write\<close>.\<close>

definition flush_block :: "sink \<Rightarrow> sink" where
  "flush_block k =
     (if bp k \<ge> 512
      then k\<lparr>i2s_out := i2s_out k @ [take (nat (bp k)) (buf k)], bp := 0\<rparr>
      else k)"

definition ConsumeSample :: "player \<Rightarrow> sink \<Rightarrow> sample \<Rightarrow> bool \<times> sink" where
  "ConsumeSample p k smp =
    (if aCmd p \<noteq> ACMD_NONE then (False, k)
     else
      let mono16 = downmix (aPaused p) (gainF2P6 k) smp;
          k = write_block mono16 k;
          k = accumulate (absMono mono16) k;
          k = emit_bin k;
          k = emit_peak k;
          k = feed_wave mono16 k;
          k = flush_block k
      in (True, k))"

text \<open>
  The decoder (library code) calls \<open>ConsumeSample\<close> once per decoded sample and unwinds
  at the first refusal. Each call sees the control context's globals as they are at that
  moment, so a run is a list of (globals, sample) pairs.
\<close>

fun consume_all :: "sink \<Rightarrow> (player \<times> sample) list \<Rightarrow> sink" where
  "consume_all k [] = k"
| "consume_all k ((p, smp) # rest) =
     (case ConsumeSample p k smp of
        (True, k') \<Rightarrow> consume_all k' rest
      | (False, k') \<Rightarrow> k')"

text \<open>
  What one call contributes to the telemetry: the magnitude added to the accumulators and
  the byte that goes into the waveform ring when the call is a decimated one. \<open>g\<close> is the
  gain of the sink.
\<close>

definition amplitude :: "8 word \<Rightarrow> player \<times> sample \<Rightarrow> nat" where
  "amplitude g e = unat (absMono (downmix (aPaused (fst e)) g (snd e)))"

definition wave_byte :: "8 word \<Rightarrow> player \<times> sample \<Rightarrow> 8 word" where
  "wave_byte g e = word_of_int (sint (downmix (aPaused (fst e)) g (snd e)) div 2 ^ 8)"

text \<open>
  The state of a freshly constructed output with the zero-initialised statics and globals
  (lines 144-155, constructor at line 289).
\<close>

definition sink_init :: sink where
  "sink_init = \<lparr>gainF2P6 = 64, buf = replicate 512 0, bp = 0, i2s_out = [], visPeak = 0,
     visBins = replicate 16 0, visWave = replicate 120 0, visWaveW = 0,
     binAcc = replicate 16 0, binIdx = 0, binCnt = 0, peakAcc = 0, peakCnt = 0, waveSub = 0\<rparr>"

text \<open>
  The ranges inside which the indices and counters of the sink stay (shown below): every
  array access of \<open>ConsumeSample\<close> is then inside its array and no counter overflows.
\<close>

definition sink_ok :: "sink \<Rightarrow> bool" where
  "sink_ok k =
     (length (buf k) = 512 \<and> 0 \<le> bp k \<and> bp k < 512 \<and> even (bp k) \<and>
      length (binAcc k) = 16 \<and> length (visBins k) = 16 \<and>
      0 \<le> binIdx k \<and> binIdx k < 16 \<and> 0 \<le> binCnt k \<and> binCnt k < 92 \<and>
      0 \<le> peakCnt k \<and> peakCnt k < 735 \<and>
      length (visWave k) = 120 \<and> 0 \<le> visWaveW k \<and> visWaveW k < 120 \<and>
      0 \<le> waveSub k \<and> waveSub k < 11)"

section \<open>Audio control: the command slot and the audio task\<close>

text \<open>
  \<open>streamUrl\<close> (line 1163) with \<open>STREAM_BITRATE\<close> 128 and \<open>STREAM_FORMAT\<close> "mp3" of
  \<^verbatim>\<open>config.example.h\<close>.
\<close>

definition streamUrl :: "string \<Rightarrow> string" where
  "streamUrl i = ''http://ice1.somafm.com/'' @ i @ ''-'' @ ''128'' @ ''-'' @ ''mp3''"

definition cleanupAudio :: "player \<Rightarrow> player" where
  "cleanupAudio s = s\<lparr>mp3 := None, audioBuf := None, audioSrc := None, aRunning := False\<rparr>"

text \<open>
  The interruptible wait of lines 1215-1216. The control context runs while the audio task
  sleeps: \<open>env i\<close> is what it does to the globals during the \<open>i\<close>-th \<open>vTaskDelay\<close> of
  100 ms. The loop condition is read before every delay.
\<close>

function retry_wait :: "nat \<Rightarrow> (nat \<Rightarrow> player \<Rightarrow> player) \<Rightarrow> player \<Rightarrow> player" where
  "retry_wait i env s =
     (if i < 20 \<and> aCmd s = ACMD_NONE then retry_wait (i + 1) env (env i s) else s)"
  by pat_completeness auto
termination
  by (relation "measure (\<lambda>(i, env, s). 20 - i)") auto

declare retry_wait.simps [simp del]



text \<open>
  One pass through the body of \<open>for (;;)\<close> in \<open>audioTask\<close> (lines 1177-1226).
  \<open>begin_ok\<close> and \<open>loop_ok\<close> are the results of the library calls \<open>mp3->begin\<close> and
  \<open>mp3->loop\<close>. Serial logging is left out.
\<close>

definition audioTask_iter ::
  "bool \<Rightarrow> bool \<Rightarrow> (nat \<Rightarrow> player \<Rightarrow> player) \<Rightarrow> player \<Rightarrow> player" where
  "audioTask_iter begin_ok loop_ok env s =
    (let cmd = aCmd s in
     if cmd \<noteq> ACMD_NONE then
       (let s = cleanupAudio (s\<lparr>aCmd := ACMD_NONE\<rparr>) in
        if cmd = ACMD_PLAY then
          (let idx = aTarget s in
           if idx \<ge> 0 \<and> idx < stationCount s then
             (let s = s\<lparr>audioSrc := Some (streamUrl (id_st (stations s ! nat idx))),
                        audioBuf := Some AUDIO_BUF_SIZE,
                        mp3 := Some begin_ok\<rparr> in
              if begin_ok then s\<lparr>aRunning := True, playingIdx := idx\<rparr>
              else cleanupAudio s)
           else s)
        else s)
     else if mp3 s = Some True then
       (if \<not> loop_ok then
          (let s = cleanupAudio s;
               s = retry_wait 0 env s in
           if aCmd s = ACMD_NONE then s\<lparr>aTarget := playingIdx s, aCmd := ACMD_PLAY\<rparr> else s)
        else s)
     else s)"

definition saveLastStation :: "player \<Rightarrow> player" where
  "saveLastStation s =
     (if selectedIdx s \<ge> 0 \<and> selectedIdx s < stationCount s
      then s\<lparr>prefs_last := id_st (stations s ! nat (selectedIdx s))\<rparr>
      else s)"

definition startPlaying :: "int \<Rightarrow> player \<Rightarrow> player" where
  "startPlaying idx s =
     saveLastStation
       (s\<lparr>aPaused := False, playingIdx := idx, selectedIdx := idx, aTarget := idx,
          aCmd := ACMD_PLAY, scrTitle_text := [], scrGenre_text := [], scrSong_text := []\<rparr>)"

definition stopPlaying :: "player \<Rightarrow> player" where
  "stopPlaying s = s\<lparr>aPaused := False, aCmd := ACMD_STOP\<rparr>"

text \<open>
  \<open>setVolume\<close> also calls \<open>SetGain\<close> on the output object; that call converts through
  \<open>float\<close> inside the library and changes \<open>gainF2P6\<close> of the sink, not the player globals.
\<close>

definition setVolume :: "8 word \<Rightarrow> player \<Rightarrow> player" where
  "setVolume v s = s\<lparr>volume := v\<rparr>"

definition saveSettings :: "player \<Rightarrow> player" where
  "saveSettings s = s\<lparr>prefs_vol := volume s, prefs_vis := word_of_int (visMode s)\<rparr>"

definition cycleVisMode :: "player \<Rightarrow> player" where
  "cycleVisMode s = saveSettings (s\<lparr>visMode := (visMode s + 1) smod 4\<rparr>)"

definition freeLogo :: "player \<Rightarrow> player" where
  "freeLogo s = s\<lparr>logoData := None, logoDataLen := 0, logoForIdx := - 1, logoValid := False\<rparr>"

section \<open>Favorites and the station order\<close>

definition ensureVisible :: "player \<Rightarrow> player" where
  "ensureVisible s =
     (let maxOff = max 0 (stationCount s - VISIBLE_LINES)
      in s\<lparr>scrollOffset := max 0 (min (selectedIdx s - VISIBLE_LINES sdiv 2) maxOff)\<rparr>)"

text \<open>
  \<open>std::stable_sort\<close> is the C++ standard library. It is modelled by a stable insertion sort
  over the comparator \<open>lt\<close>: an element is placed behind every element that is already
  there and not greater than it. The comparator of line 637 is \<open>fav_first\<close>.
\<close>

fun insert_stable :: "('a \<Rightarrow> 'a \<Rightarrow> bool) \<Rightarrow> 'a \<Rightarrow> 'a list \<Rightarrow> 'a list" where
  "insert_stable lt x [] = [x]"
| "insert_stable lt x (y # ys) = (if lt x y then x # y # ys else y # insert_stable lt x ys)"

definition stable_sort :: "('a \<Rightarrow> 'a \<Rightarrow> bool) \<Rightarrow> 'a list \<Rightarrow> 'a list" where
  "stable_sort lt xs = fold (insert_stable lt) xs []"

definition fav_first :: "station \<Rightarrow> station \<Rightarrow> bool" where
  "fav_first a b = (fav a \<and> \<not> fav b)"

text \<open>The loop of lines 640-643 over the indices \<open>0 .. stationCount - 1\<close>.\<close>

fun restore_loop :: "string \<Rightarrow> string \<Rightarrow> nat list \<Rightarrow> player \<Rightarrow> player" where
  "restore_loop selId playId [] s = s"
| "restore_loop selId playId (i # rest) s =
     (let s = (if length selId \<noteq> 0 \<and> id_st (stations s ! i) = selId
               then s\<lparr>selectedIdx := int i\<rparr> else s);
          s = (if length playId \<noteq> 0 \<and> id_st (stations s ! i) = playId
               then s\<lparr>playingIdx := int i\<rparr> else s)
      in restore_loop selId playId rest s)"

definition sortStations :: "player \<Rightarrow> player" where
  "sortStations s =
     (let selId = (if selectedIdx s \<ge> 0 \<and> selectedIdx s < stationCount s
                   then id_st (stations s ! nat (selectedIdx s)) else []);
          playId = (if playingIdx s \<ge> 0 \<and> playingIdx s < stationCount s
                    then id_st (stations s ! nat (playingIdx s)) else []);
          s = s\<lparr>stations := stable_sort fav_first (stations s)\<rparr>;
          s = restore_loop selId playId [0 ..< length (stations s)] s
      in ensureVisible s)"

definition saveFavorites :: "player \<Rightarrow> player" where
  "saveFavorites s =
     s\<lparr>prefs_favs :=
         fold (\<lambda>st favs. if fav st
                          then (if length favs > 0 then favs @ '','' else favs) @ id_st st
                          else favs)
              (stations s) []\<rparr>"

definition toggleFavorite :: "int \<Rightarrow> player \<Rightarrow> player" where
  "toggleFavorite idx s =
     (if idx < 0 \<or> idx \<ge> stationCount s then s
      else
        let st = stations s ! nat idx;
            s = s\<lparr>stations := (stations s)[nat idx := st\<lparr>fav := \<not> fav st\<rparr>]\<rparr>
        in sortStations (saveFavorites s))"

section \<open>Key handlers\<close>

text \<open>
  What a handler reads from the hardware in one call: the G0 button, the keyboard's change
  and pressed flags, the clock, and the decoded key state.
\<close>

record keys =
  btnA_wasPressed :: bool
  kb_isChange :: bool
  kb_isPressed :: bool
  millis :: "32 word"
  ks_word :: string
  ks_enter :: bool
  ks_del :: bool
  ks_tab :: bool

definition hasKey :: "string \<Rightarrow> char \<Rightarrow> bool" where
  "hasKey word ch = (ch \<in> set word)"

text \<open>
  \<open>% stationCount\<close> with an empty directory divides by zero, which traps on the target;
  the handler then ends in \<open>DivideByZero\<close>.
\<close>

datatype fault = DivideByZero

definition handleBrowserKeys :: "keys \<Rightarrow> player \<Rightarrow> player" where
  "handleBrowserKeys inp s =
    (if \<not> kb_isChange inp \<or> \<not> kb_isPressed inp then s
     else if millis inp - tLastKey s < DEBOUNCE_MS then s
     else
      let w = ks_word inp;
          s = s\<lparr>tLastKey := millis inp\<rparr>;
          s = (if hasKey w CHR '';'' \<or> hasKey w CHR ''w''
               then (if selectedIdx s > 0
                     then (let s = s\<lparr>selectedIdx := selectedIdx s - 1\<rparr>
                           in if selectedIdx s < scrollOffset s
                              then s\<lparr>scrollOffset := selectedIdx s\<rparr> else s)
                     else s)
               else s);
          s = (if hasKey w CHR ''.'' \<or> hasKey w CHR ''s''
               then (if selectedIdx s < stationCount s - 1
                     then (let s = s\<lparr>selectedIdx := selectedIdx s + 1\<rparr>
                           in if selectedIdx s \<ge> scrollOffset s + VISIBLE_LINES
                              then s\<lparr>scrollOffset := selectedIdx s - VISIBLE_LINES + 1\<rparr> else s)
                     else s)
               else s);
          s = (if hasKey w CHR ''q''
               then s\<lparr>selectedIdx := max 0 (selectedIdx s - VISIBLE_LINES),
                      scrollOffset := max 0 (scrollOffset s - VISIBLE_LINES)\<rparr>
               else s);
          s = (if hasKey w CHR ''e''
               then (let s = s\<lparr>selectedIdx :=
                                 min (stationCount s - 1) (selectedIdx s + VISIBLE_LINES)\<rparr>
                     in if selectedIdx s \<ge> scrollOffset s + VISIBLE_LINES
                        then s\<lparr>scrollOffset := min (stationCount s - VISIBLE_LINES)
                                                   (selectedIdx s - VISIBLE_LINES + 1)\<rparr>
                        else s)
               else s);
          s = (if ks_enter inp
               then (startPlaying (selectedIdx s) (freeLogo (s\<lparr>nowTrack := []\<rparr>)))
                      \<lparr>appState := STATE_PLAYING, tLastNP := 0\<rparr>
               else s);
          s = (if hasKey w CHR '' ''
               then (if playingIdx s \<ge> 0
                     then s\<lparr>aPaused := \<not> aPaused s\<rparr>
                     else (startPlaying (selectedIdx s) (freeLogo (s\<lparr>nowTrack := []\<rparr>)))
                            \<lparr>appState := STATE_PLAYING, tLastNP := 0\<rparr>)
               else s);
          s = (if hasKey w CHR ''f'' then toggleFavorite (selectedIdx s) s else s);
          s = (if ks_tab inp then cycleVisMode s else s);
          s = (if hasKey w CHR '',''
               then saveSettings (setVolume (if volume s > 15 then volume s - 15 else 0) s)
               else s);
          s = (if hasKey w CHR ''/''
               then saveSettings (setVolume (if volume s < 240 then volume s + 15 else 255) s)
               else s)
      in s)"

definition handlePlayerKeys :: "keys \<Rightarrow> player \<Rightarrow> fault + player" where
  "handlePlayerKeys inp s =
    (if btnA_wasPressed inp then Inr (s\<lparr>appState := STATE_BROWSER\<rparr>)
     else if \<not> kb_isChange inp \<or> \<not> kb_isPressed inp then Inr s
     else if millis inp - tLastKey s < DEBOUNCE_MS then Inr s
     else
      let w = ks_word inp;
          s = s\<lparr>tLastKey := millis inp\<rparr>;
          s = (if ks_del inp then s\<lparr>appState := STATE_BROWSER\<rparr> else s);
          s = (if hasKey w CHR ''x''
               then (stopPlaying s)\<lparr>playingIdx := - 1, appState := STATE_BROWSER\<rparr>
               else s);
          s = (if hasKey w CHR ''f'' then toggleFavorite (playingIdx s) s else s);
          s = (if hasKey w CHR '' '' then s\<lparr>aPaused := \<not> aPaused s\<rparr> else s);
          s = (if ks_tab inp then cycleVisMode s else s);
          s = (if hasKey w CHR '',''
               then saveSettings (setVolume (if volume s > 15 then volume s - 15 else 0) s)
               else s);
          s = (if hasKey w CHR ''/''
               then saveSettings (setVolume (if volume s < 240 then volume s + 15 else 255) s)
               else s)
      in
       if hasKey w CHR ''.'' \<and> stationCount s = 0 then Inl DivideByZero
       else
        let s = (if hasKey w CHR ''.''
                 then (let next = (playingIdx s + 1) smod stationCount s
                       in (startPlaying next
                             (freeLogo (s\<lparr>selectedIdx := next, nowTrack := []\<rparr>)))
                            \<lparr>tLastNP := 0\<rparr>)
                 else s)
        in
         if hasKey w CHR '';'' \<and> stationCount s = 0 then Inl DivideByZero
         else
          Inr (if hasKey w CHR '';''
               then (let prev = (playingIdx s - 1 + stationCount s) smod stationCount s
                     in (startPlaying prev
                           (freeLogo (s\<lparr>selectedIdx := prev, nowTrack := []\<rparr>)))
                          \<lparr>tLastNP := 0\<rparr>)
               else s))"

section \<open>Initial globals and concrete directories\<close>

text \<open>
  The initial values of the globals (lines 99-161), with \<open>DEFAULT_VOLUME\<close> 100 and
  \<open>VIS_BARS\<close> 1.
\<close>

definition player_init :: player where
  "player_init = \<lparr>stations = [], selectedIdx = 0, scrollOffset = 0, playingIdx = - 1,
     volume = 100, appState = STATE_BOOT, nowTrack = [], audioSrc = None, audioBuf = None,
     mp3 = None, aRunning = False, aPaused = False, aCmd = ACMD_NONE, aTarget = - 1,
     tLastNP = 0, tLastKey = 0, visMode = 1, logoData = None, logoDataLen = 0,
     logoForIdx = - 1, logoValid = False, scrTitle_text = [], scrGenre_text = [],
     scrSong_text = [], prefs_last = [], prefs_favs = [], prefs_vol = 100, prefs_vis = 1\<rparr>"

text \<open>
  A directory entry as the parser leaves it (lines 453-461: \<open>fav = false\<close>), reduced to
  the identifier, and a directory with chosen favorite marks; used for the concrete
  instances below.
\<close>

definition parsed_station :: "string \<Rightarrow> station" where
  "parsed_station i = \<lparr>id_st = i, title = [], desc = [], genre = [], imageUrl = [],
     color = 0, listeners = 0, fav = False\<rparr>"

definition directory :: "(string \<times> bool) list \<Rightarrow> station list" where
  "directory entries = map (\<lambda>(i, f). (parsed_station i)\<lparr>fav := f\<rparr>) entries"

text \<open>The key state with exactly the keys of \<open>w\<close> down, accepted by the debounce check.\<close>

definition key_press :: "string \<Rightarrow> keys" where
  "key_press w = \<lparr>btnA_wasPressed = False, kb_isChange = True, kb_isPressed = True,
     millis = 1000, ks_word = w, ks_enter = False, ks_del = False, ks_tab = False\<rparr>"

text \<open>A browser state with three stations, nothing playing, and the same with a pending Stop.\<close>

definition demo_player :: player where
  "demo_player = player_init\<lparr>stations :=
      directory [(''groovesalad'', False), (''dronezone'', True), (''lush'', False)],
      appState := STATE_BROWSER\<rparr>"

text \<open>Two stations with distinct identifiers, the first one with the empty identifier.\<close>

definition unnamed_first :: player where
  "unnamed_first = player_init\<lparr>stations := directory [([], False), (''dronezone'', True)]\<rparr>"

text \<open>
  A streaming state as the code produces it (station 1 requested, connect succeeded), a
  control context that does nothing, and one that calls \<open>startPlaying(2)\<close> during delay 5.
\<close>

definition streaming_player :: player where
  "streaming_player = audioTask_iter True True (\<lambda>i u. u) (startPlaying 1 demo_player)"

definition no_control :: "nat \<Rightarrow> player \<Rightarrow> player" where
  "no_control i u = u"





text \<open>1320 calls with no command pending: silence, then one loud sample.\<close>

definition wave_input :: "(player \<times> sample) list" where
  "wave_input = replicate 1319 (player_init, (0, 0)) @ [(player_init, (0x7F00, 0x7F00))]"

section \<open>The output sink refuses samples while a command is pending\<close>

text \<open>
  Claim C3. \<open>ConsumeSample\<close> returns \<open>false\<close> exactly when the command slot is not
  \<open>ACMD_NONE\<close>; a refusing call returns the sink as it was (no write to the output block,
  no telemetry update); every call with an empty slot returns \<open>true\<close>.
\<close>

theorem ConsumeSample_refusal:
  "(\<not> fst (ConsumeSample p k smp) \<longleftrightarrow> aCmd p \<noteq> ACMD_NONE) \<and>
   (aCmd p \<noteq> ACMD_NONE \<longrightarrow> ConsumeSample p k smp = (False, k)) \<and>
   (aCmd p = ACMD_NONE \<longrightarrow> fst (ConsumeSample p k smp))"
  by (simp add: ConsumeSample_def Let_def)

text \<open>
  Instance of C3: with \<open>Stop\<close> pending the fresh sink is returned untouched, and with an
  empty slot the same sample is accepted.
\<close>

theorem ConsumeSample_refusal_witness:
  "aCmd (player_init\<lparr>aCmd := ACMD_STOP\<rparr>) \<noteq> ACMD_NONE \<and>
   ConsumeSample (player_init\<lparr>aCmd := ACMD_STOP\<rparr>) sink_init (1000, 2000) = (False, sink_init) \<and>
   aCmd player_init = ACMD_NONE \<and>
   fst (ConsumeSample player_init sink_init (1000, 2000))"
  using ConsumeSample_refusal [of "player_init\<lparr>aCmd := ACMD_STOP\<rparr>" sink_init "(1000, 2000)"]
        ConsumeSample_refusal [of player_init sink_init "(1000, 2000)"]
  by (simp add: player_init_def)

section \<open>Stop requests\<close>

text \<open>
  Claim C4 as stated fails: \<open>stopPlaying\<close> does not write \<open>aRunning\<close>. With station 1
  streaming, \<open>aRunning\<close> is still \<open>true\<close> when \<open>stopPlaying\<close> returns.
\<close>

theorem stopPlaying_running_counterexample:
  "aRunning streaming_player \<and> aRunning (stopPlaying streaming_player) \<and>
   aCmd (stopPlaying streaming_player) = ACMD_STOP"
  by code_simp

text \<open>
  Claim C4, amended. \<open>stopPlaying\<close> publishes \<open>Stop\<close> and clears \<open>aPaused\<close>; it leaves
  \<open>aRunning\<close> as it was. \<open>aRunning\<close> is cleared by the audio task, in the pass of its loop
  that consumes the command (through \<open>cleanupAudio\<close>), which also empties the slot.
\<close>

theorem stopPlaying_effect:
  "aCmd (stopPlaying s) = ACMD_STOP \<and> aPaused (stopPlaying s) = False \<and>
   aRunning (stopPlaying s) = aRunning s \<and>
   aRunning (audioTask_iter begin_ok loop_ok env (stopPlaying s)) = False \<and>
   aCmd (audioTask_iter begin_ok loop_ok env (stopPlaying s)) = ACMD_NONE"
  by (simp add: stopPlaying_def audioTask_iter_def cleanupAudio_def Let_def)

section \<open>Play requests and the range check\<close>

text \<open>
  Claim C2 as stated fails: \<open>startPlaying\<close> has no range check. With three stations,
  \<open>startPlaying(3)\<close> publishes \<open>Play\<close> and moves \<open>playingIdx\<close> and \<open>selectedIdx\<close> to 3.
\<close>

theorem startPlaying_no_range_check_counterexample:
  "\<not> 3 < stationCount demo_player \<and> aCmd demo_player = ACMD_NONE \<and>
   aCmd (startPlaying 3 demo_player) = ACMD_PLAY \<and>
   playingIdx demo_player = - 1 \<and> playingIdx (startPlaying 3 demo_player) = 3 \<and>
   selectedIdx demo_player = 0 \<and> selectedIdx (startPlaying 3 demo_player) = 3"
  by (simp add: demo_player_def player_init_def startPlaying_def saveLastStation_def
      stationCount_def directory_def)

text \<open>
  Claim C2, amended. For an out-of-range index \<open>startPlaying\<close> still clears \<open>aPaused\<close>,
  sets \<open>playingIdx\<close>, \<open>selectedIdx\<close> and \<open>aTarget\<close> to the index and publishes \<open>Play\<close>;
  it changes nothing else (\<open>aRunning\<close> and the saved last station included). The index is
  rejected by the audio task: the pass that consumes the command empties the slot, tears
  down the session (\<open>aRunning = false\<close>) and creates no new one.
\<close>

theorem startPlaying_out_of_range:
  assumes "idx < 0 \<or> idx \<ge> stationCount s"
  shows "startPlaying idx s =
           s\<lparr>aPaused := False, playingIdx := idx, selectedIdx := idx, aTarget := idx,
             aCmd := ACMD_PLAY, scrTitle_text := [], scrGenre_text := [], scrSong_text := []\<rparr> \<and>
         aRunning (startPlaying idx s) = aRunning s \<and>
         audioTask_iter begin_ok loop_ok env (startPlaying idx s) =
           cleanupAudio ((startPlaying idx s)\<lparr>aCmd := ACMD_NONE\<rparr>)"
  using assms
  by (auto simp add: startPlaying_def saveLastStation_def stationCount_def audioTask_iter_def
      Let_def cleanupAudio_def)

text \<open>Instance of C2 (amended): index 3 with three stations.\<close>

theorem startPlaying_out_of_range_witness:
  "stationCount demo_player \<le> 3 \<and>
   aCmd (startPlaying 3 demo_player) = ACMD_PLAY \<and>
   aTarget (startPlaying 3 demo_player) = 3 \<and>
   aCmd (audioTask_iter True True no_control (startPlaying 3 demo_player)) = ACMD_NONE \<and>
   mp3 (audioTask_iter True True no_control (startPlaying 3 demo_player)) = None \<and>
   aRunning (audioTask_iter True True no_control (startPlaying 3 demo_player)) = False"
proof -
  have h: "(3::int) < 0 \<or> 3 \<ge> stationCount demo_player"
    by (simp add: demo_player_def player_init_def stationCount_def directory_def)
  note iter = startPlaying_out_of_range [OF h, of True True no_control,
      THEN conjunct2, THEN conjunct2]
  show ?thesis
    using h unfolding iter
    by (simp add: cleanupAudio_def startPlaying_def saveLastStation_def)
qed

section \<open>Keys of the player and browser screens\<close>

lemma smod_nonneg: "0 \<le> a \<Longrightarrow> 0 < b \<Longrightarrow> (a::int) smod b = a mod b"
  by (simp add: smod_int_alt_def sgn_if)

lemma hasKey_single [simp]: "hasKey [c] d = (d = c)"
  by (auto simp: hasKey_def)

lemma stationCount_tLastKey [simp]: "stationCount (tLastKey_update f u) = stationCount u"
  by (simp add: stationCount_def)

text \<open>What the player screen does when exactly one of the keys space, \<open>.\<close>, \<open>;\<close> is down.\<close>

lemma player_space:
  assumes "ks_word inp = '' ''" "\<not> ks_del inp" "\<not> ks_tab inp" "\<not> btnA_wasPressed inp"
    "kb_isChange inp" "kb_isPressed inp" "\<not> millis inp - tLastKey s < DEBOUNCE_MS"
  shows "handlePlayerKeys inp s = Inr (s\<lparr>tLastKey := millis inp, aPaused := \<not> aPaused s\<rparr>)"
  using assms(2-) unfolding handlePlayerKeys_def assms(1)
  by (simp add: Let_def)

lemma browser_space:
  assumes "ks_word inp = '' ''" "\<not> ks_enter inp" "\<not> ks_tab inp"
    "kb_isChange inp" "kb_isPressed inp" "\<not> millis inp - tLastKey s < DEBOUNCE_MS"
    "0 \<le> playingIdx s"
  shows "handleBrowserKeys inp s = s\<lparr>tLastKey := millis inp, aPaused := \<not> aPaused s\<rparr>"
  using assms(2-) unfolding handleBrowserKeys_def assms(1)
  by (simp add: Let_def)

lemma player_next:
  assumes "ks_word inp = ''.''" "\<not> ks_del inp" "\<not> ks_tab inp" "\<not> btnA_wasPressed inp"
    "kb_isChange inp" "kb_isPressed inp" "\<not> millis inp - tLastKey s < DEBOUNCE_MS"
    "stationCount s \<noteq> 0"
  shows "handlePlayerKeys inp s =
     Inr ((startPlaying ((playingIdx s + 1) smod stationCount s)
            (freeLogo (s\<lparr>tLastKey := millis inp,
                         selectedIdx := (playingIdx s + 1) smod stationCount s,
                         nowTrack := []\<rparr>)))\<lparr>tLastNP := 0\<rparr>)"
  using assms(2-) unfolding handlePlayerKeys_def assms(1)
  by (simp add: Let_def)

lemma player_prev:
  assumes "ks_word inp = '';''" "\<not> ks_del inp" "\<not> ks_tab inp" "\<not> btnA_wasPressed inp"
    "kb_isChange inp" "kb_isPressed inp" "\<not> millis inp - tLastKey s < DEBOUNCE_MS"
    "stationCount s \<noteq> 0"
  shows "handlePlayerKeys inp s =
     Inr ((startPlaying ((playingIdx s - 1 + stationCount s) smod stationCount s)
            (freeLogo (s\<lparr>tLastKey := millis inp,
                         selectedIdx := (playingIdx s - 1 + stationCount s) smod stationCount s,
                         nowTrack := []\<rparr>)))\<lparr>tLastNP := 0\<rparr>)"
  using assms(2-) unfolding handlePlayerKeys_def assms(1)
  by (simp add: Let_def)

lemma startPlaying_fields:
  "aCmd (startPlaying i u) = ACMD_PLAY \<and> aTarget (startPlaying i u) = i \<and>
   playingIdx (startPlaying i u) = i \<and> selectedIdx (startPlaying i u) = i"
  by (simp add: startPlaying_def saveLastStation_def)

text \<open>
  Claim C6 as stated fails for the space key of the browser screen: with nothing playing
  (\<open>playingIdx < 0\<close>) it starts the selected station, which writes the command slot, the
  target and \<open>playingIdx\<close>.
\<close>

theorem browser_space_counterexample:
  "playingIdx demo_player = - 1 \<and> aCmd demo_player = ACMD_NONE \<and>
   aCmd (handleBrowserKeys (key_press '' '') demo_player) = ACMD_PLAY \<and>
   aTarget (handleBrowserKeys (key_press '' '') demo_player) = 0 \<and>
   playingIdx (handleBrowserKeys (key_press '' '') demo_player) = 0"
  by (simp add: demo_player_def player_init_def handleBrowserKeys_def key_press_def
      DEBOUNCE_MS_def Let_def startPlaying_def saveLastStation_def stationCount_def
      directory_def freeLogo_def)

text \<open>
  Claim C6, amended. When the space key alone is accepted by the player screen, or by the
  browser screen while a station is recorded as playing (\<open>playingIdx \<ge> 0\<close>), the globals
  afterwards are the ones before with \<open>aPaused\<close> flipped and the debounce time stamp
  updated: the command slot, the target, \<open>playingIdx\<close>, the selection and the session
  objects (\<open>audioSrc\<close>, \<open>audioBuf\<close>, \<open>mp3\<close>) are unchanged, so a second toggle resumes the
  same session. (In the browser with \<open>playingIdx < 0\<close> the space key is a play request.)
\<close>

theorem pause_toggle_frame:
  assumes "ks_word inp = '' ''" "\<not> ks_del inp" "\<not> ks_tab inp" "\<not> ks_enter inp"
    "\<not> btnA_wasPressed inp"
    "kb_isChange inp" "kb_isPressed inp" "\<not> millis inp - tLastKey s < DEBOUNCE_MS"
  shows "handlePlayerKeys inp s = Inr (s\<lparr>tLastKey := millis inp, aPaused := \<not> aPaused s\<rparr>) \<and>
     (0 \<le> playingIdx s \<longrightarrow>
        handleBrowserKeys inp s = s\<lparr>tLastKey := millis inp, aPaused := \<not> aPaused s\<rparr>)"
  using player_space [of inp s] browser_space [of inp s] assms by simp

text \<open>
  Instance of C6 (amended): station 1 is streaming; space at time 1000 pauses, space at
  time 2000 resumes, and the globals are the streaming ones again (session included) up
  to the debounce time stamp.
\<close>

theorem pause_toggle_frame_witness:
  "mp3 streaming_player = Some True \<and>
   handlePlayerKeys (key_press '' '') streaming_player =
     Inr (streaming_player\<lparr>tLastKey := 1000, aPaused := True\<rparr>) \<and>
   handlePlayerKeys ((key_press '' '')\<lparr>millis := 2000\<rparr>)
       (streaming_player\<lparr>tLastKey := 1000, aPaused := True\<rparr>) =
     Inr (streaming_player\<lparr>tLastKey := 2000, aPaused := False\<rparr>) \<and>
   handleBrowserKeys (key_press '' '') streaming_player =
     streaming_player\<lparr>tLastKey := 1000, aPaused := True\<rparr>"
proof -
  have s: "mp3 streaming_player = Some True" "tLastKey streaming_player = 0"
    "aPaused streaming_player = False" "playingIdx streaming_player = 1"
    by code_simp+
  have k: "ks_word (key_press '' '') = '' ''" "\<not> ks_del (key_press '' '')"
    "\<not> ks_tab (key_press '' '')" "\<not> ks_enter (key_press '' '')"
    "\<not> btnA_wasPressed (key_press '' '')" "kb_isChange (key_press '' '')"
    "kb_isPressed (key_press '' '')" "millis (key_press '' '') = 1000"
    by (simp_all add: key_press_def)
  have d1: "\<not> millis (key_press '' '') - tLastKey streaming_player < DEBOUNCE_MS"
    by (simp add: k s DEBOUNCE_MS_def)
  have d2: "\<not> millis ((key_press '' '')\<lparr>millis := 2000\<rparr>) -
              tLastKey (streaming_player\<lparr>tLastKey := 1000, aPaused := True\<rparr>) < DEBOUNCE_MS"
    by (simp add: DEBOUNCE_MS_def)
  note first = pause_toggle_frame [OF k(1-7) d1, unfolded k(8) s]
  have k2: "ks_word ((key_press '' '')\<lparr>millis := 2000\<rparr>) = '' ''"
    "\<not> ks_del ((key_press '' '')\<lparr>millis := 2000\<rparr>)"
    "\<not> ks_tab ((key_press '' '')\<lparr>millis := 2000\<rparr>)"
    "\<not> ks_enter ((key_press '' '')\<lparr>millis := 2000\<rparr>)"
    "\<not> btnA_wasPressed ((key_press '' '')\<lparr>millis := 2000\<rparr>)"
    "kb_isChange ((key_press '' '')\<lparr>millis := 2000\<rparr>)"
    "kb_isPressed ((key_press '' '')\<lparr>millis := 2000\<rparr>)"
    by (simp_all add: key_press_def)
  note second = pause_toggle_frame [OF k2 d2, THEN conjunct1]
  have a: "handlePlayerKeys (key_press '' '') streaming_player =
      Inr (streaming_player\<lparr>tLastKey := 1000, aPaused := True\<rparr>)"
    using first by simp
  have b: "handlePlayerKeys ((key_press '' '')\<lparr>millis := 2000\<rparr>)
       (streaming_player\<lparr>tLastKey := 1000, aPaused := True\<rparr>) =
     Inr (streaming_player\<lparr>tLastKey := 2000, aPaused := False\<rparr>)"
    using second by simp
  have c: "handleBrowserKeys (key_press '' '') streaming_player =
     streaming_player\<lparr>tLastKey := 1000, aPaused := True\<rparr>"
    using first by simp
  show ?thesis using s(1) a b c by (intro conjI)
qed

text \<open>
  Claim C9. With a non-empty directory and a valid \<open>playingIdx\<close>, the key \<open>.\<close> of the player
  screen requests play of \<open>(playingIdx + 1) mod stationCount\<close> and the key \<open>;\<close> of
  \<open>(playingIdx - 1) mod stationCount\<close> (\<open>mod\<close> is the mathematical one here): from the
  last index skip-next goes to 0, from index 0 skip-prev goes to the last index.
\<close>

theorem skip_wraps:
  assumes "\<not> ks_del inp" "\<not> ks_tab inp" "\<not> btnA_wasPressed inp"
    "kb_isChange inp" "kb_isPressed inp" "\<not> millis inp - tLastKey s < DEBOUNCE_MS"
    "0 \<le> playingIdx s" "playingIdx s < stationCount s"
  shows "(ks_word inp = ''.'' \<longrightarrow>
           (\<exists>t. handlePlayerKeys inp s = Inr t \<and> aCmd t = ACMD_PLAY \<and>
               aTarget t = (playingIdx s + 1) mod stationCount s \<and>
               playingIdx t = aTarget t \<and> selectedIdx t = aTarget t \<and>
               (playingIdx s = stationCount s - 1 \<longrightarrow> aTarget t = 0))) \<and>
         (ks_word inp = '';'' \<longrightarrow>
           (\<exists>t. handlePlayerKeys inp s = Inr t \<and> aCmd t = ACMD_PLAY \<and>
               aTarget t = (playingIdx s - 1) mod stationCount s \<and>
               playingIdx t = aTarget t \<and> selectedIdx t = aTarget t \<and>
               (playingIdx s = 0 \<longrightarrow> aTarget t = stationCount s - 1)))"
proof -
  have n: "0 < stationCount s" "stationCount s \<noteq> 0"
    using assms by simp_all
  have nx: "(playingIdx s + 1) smod stationCount s = (playingIdx s + 1) mod stationCount s"
    using assms n by (simp add: smod_nonneg)
  have pv: "(playingIdx s - 1 + stationCount s) smod stationCount s =
            (playingIdx s - 1) mod stationCount s"
    using assms n by (simp add: smod_nonneg)
  have last: "playingIdx s = stationCount s - 1 \<Longrightarrow> (playingIdx s + 1) mod stationCount s = 0"
    by simp
  have first: "playingIdx s = 0 \<Longrightarrow> (playingIdx s - 1) mod stationCount s = stationCount s - 1"
    using n by (simp add: zmod_minus1)
  show ?thesis
  proof (intro conjI impI)
    assume w: "ks_word inp = ''.''"
    show "\<exists>t. handlePlayerKeys inp s = Inr t \<and> aCmd t = ACMD_PLAY \<and>
               aTarget t = (playingIdx s + 1) mod stationCount s \<and>
               playingIdx t = aTarget t \<and> selectedIdx t = aTarget t \<and>
               (playingIdx s = stationCount s - 1 \<longrightarrow> aTarget t = 0)"
      unfolding player_next [OF w assms(1-6) n(2)] nx
      using last by (simp add: startPlaying_fields)
  next
    assume w: "ks_word inp = '';''"
    show "\<exists>t. handlePlayerKeys inp s = Inr t \<and> aCmd t = ACMD_PLAY \<and>
               aTarget t = (playingIdx s - 1) mod stationCount s \<and>
               playingIdx t = aTarget t \<and> selectedIdx t = aTarget t \<and>
               (playingIdx s = 0 \<longrightarrow> aTarget t = stationCount s - 1)"
      unfolding player_prev [OF w assms(1-6) n(2)] pv
      using first by (simp add: startPlaying_fields)
  qed
qed

text \<open>
  Instance of C9 with three stations: \<open>.\<close> at index 2 requests index 0, \<open>;\<close> at index 0
  requests index 2.
\<close>

theorem skip_wraps_witness:
  "(\<exists>t. handlePlayerKeys (key_press ''.'') (demo_player\<lparr>playingIdx := 2\<rparr>) = Inr t \<and>
        aCmd t = ACMD_PLAY \<and> aTarget t = 0) \<and>
   (\<exists>t. handlePlayerKeys (key_press '';'') (demo_player\<lparr>playingIdx := 0\<rparr>) = Inr t \<and>
        aCmd t = ACMD_PLAY \<and> aTarget t = 2)"
proof -
  have n: "stationCount (demo_player\<lparr>playingIdx := 2\<rparr>) = 3"
          "stationCount (demo_player\<lparr>playingIdx := 0\<rparr>) = 3"
    by (simp_all add: demo_player_def player_init_def stationCount_def directory_def)
  have k: "ks_word (key_press w) = w" "\<not> ks_del (key_press w)" "\<not> ks_tab (key_press w)"
    "\<not> btnA_wasPressed (key_press w)" "kb_isChange (key_press w)" "kb_isPressed (key_press w)"
    "\<not> millis (key_press w) - tLastKey (demo_player\<lparr>playingIdx := i\<rparr>) < DEBOUNCE_MS"
    for w i
    by (simp_all add: key_press_def demo_player_def player_init_def DEBOUNCE_MS_def)
  obtain t where t: "handlePlayerKeys (key_press ''.'') (demo_player\<lparr>playingIdx := 2\<rparr>) = Inr t"
      "aCmd t = ACMD_PLAY" "aTarget t = 0"
    using skip_wraps [of "key_press ''.''" "demo_player\<lparr>playingIdx := 2\<rparr>",
        OF k(2) k(3) k(4) k(5) k(6) k(7)]
    by (auto simp: n k(1))
  obtain u where u: "handlePlayerKeys (key_press '';'') (demo_player\<lparr>playingIdx := 0\<rparr>) = Inr u"
      "aCmd u = ACMD_PLAY" "aTarget u = 2"
    using skip_wraps [of "key_press '';''" "demo_player\<lparr>playingIdx := 0\<rparr>",
        OF k(2) k(3) k(4) k(5) k(6) k(7)]
    by (auto simp: n k(1))
  show ?thesis
    using t u by simp
qed

section \<open>Sorting the directory favorites first\<close>

lemma insert_stable_append:
  "\<forall>y\<in>set ys. \<not> lt x y \<Longrightarrow> insert_stable lt x (ys @ zs) = ys @ insert_stable lt x zs"
  by (induction ys) auto

lemma insert_stable_front:
  "\<forall>y\<in>set zs. lt x y \<Longrightarrow> insert_stable lt x zs = x # zs"
  by (cases zs) auto

lemma insert_fav_first:
  "insert_stable fav_first x (filter fav ys @ filter (\<lambda>y. \<not> fav y) ys) =
   filter fav (ys @ [x]) @ filter (\<lambda>y. \<not> fav y) (ys @ [x])"
proof (cases "fav x")
  case True
  have "insert_stable fav_first x (filter fav ys @ filter (\<lambda>y. \<not> fav y) ys) =
        filter fav ys @ insert_stable fav_first x (filter (\<lambda>y. \<not> fav y) ys)"
    by (rule insert_stable_append) (simp add: fav_first_def)
  also have "insert_stable fav_first x (filter (\<lambda>y. \<not> fav y) ys) = x # filter (\<lambda>y. \<not> fav y) ys"
    by (rule insert_stable_front) (simp add: fav_first_def True)
  finally show ?thesis using True by simp
next
  case False
  have "insert_stable fav_first x ((filter fav ys @ filter (\<lambda>y. \<not> fav y) ys) @ []) =
        (filter fav ys @ filter (\<lambda>y. \<not> fav y) ys) @ insert_stable fav_first x []"
    by (rule insert_stable_append) (simp add: fav_first_def False)
  then show ?thesis using False by simp
qed

lemma fold_fav_first:
  "fold (insert_stable fav_first) xs (filter fav ys @ filter (\<lambda>y. \<not> fav y) ys) =
   filter fav (ys @ xs) @ filter (\<lambda>y. \<not> fav y) (ys @ xs)"
proof (induction xs arbitrary: ys)
  case Nil
  show ?case by simp
next
  case (Cons x xs)
  have "fold (insert_stable fav_first) (x # xs) (filter fav ys @ filter (\<lambda>y. \<not> fav y) ys) =
        fold (insert_stable fav_first) xs
          (filter fav (ys @ [x]) @ filter (\<lambda>y. \<not> fav y) (ys @ [x]))"
    by (simp only: fold_simps insert_fav_first)
  also have "\<dots> = filter fav ((ys @ [x]) @ xs) @ filter (\<lambda>y. \<not> fav y) ((ys @ [x]) @ xs)"
    by (rule Cons.IH)
  finally show ?case by simp
qed

lemma stable_sort_fav_first:
  "stable_sort fav_first xs = filter fav xs @ filter (\<lambda>y. \<not> fav y) xs"
  using fold_fav_first [of xs "[]"] by (simp add: stable_sort_def)

lemma restore_loop_stations [simp]:
  "stations (restore_loop a b js s) = stations s"
  by (induction js arbitrary: s) (simp_all add: Let_def)

lemma restore_loop_sel_miss:
  "\<forall>i\<in>set js. a = [] \<or> id_st (stations s ! i) \<noteq> a \<Longrightarrow>
   selectedIdx (restore_loop a b js s) = selectedIdx s"
  by (induction js arbitrary: s) (auto simp: Let_def)

lemma restore_loop_play_miss:
  "\<forall>i\<in>set js. b = [] \<or> id_st (stations s ! i) \<noteq> b \<Longrightarrow>
   playingIdx (restore_loop a b js s) = playingIdx s"
  by (induction js arbitrary: s) (auto simp: Let_def)

lemma restore_loop_Cons:
  "restore_loop a b (i # js) s =
     restore_loop a b js
       ((if b \<noteq> [] \<and> id_st (stations s ! i) = b then playingIdx_update (\<lambda>_. int i) else (\<lambda>u. u))
        ((if a \<noteq> [] \<and> id_st (stations s ! i) = a then selectedIdx_update (\<lambda>_. int i) else (\<lambda>u. u)) s))"
  by (simp add: Let_def)

lemma restore_loop_sel_hit:
  assumes "a \<noteq> []" "j \<in> set js" "id_st (stations s ! j) = a"
    "\<forall>i\<in>set js. id_st (stations s ! i) = a \<longrightarrow> i = j"
  shows "selectedIdx (restore_loop a b js s) = int j"
  using assms
proof (induction js arbitrary: s)
  case Nil
  then show ?case by simp
next
  case (Cons i js)
  define s' where "s' =
       ((if b \<noteq> [] \<and> id_st (stations s ! i) = b then playingIdx_update (\<lambda>_. int i) else (\<lambda>u. u))
        ((if a \<noteq> [] \<and> id_st (stations s ! i) = a then selectedIdx_update (\<lambda>_. int i) else (\<lambda>u. u)) s))"
  have st: "stations s' = stations s" by (simp add: s'_def)
  have r: "restore_loop a b (i # js) s = restore_loop a b js s'"
    unfolding s'_def by (rule restore_loop_Cons)
  show ?case
  proof (cases "j \<in> set js")
    case True
    have "selectedIdx (restore_loop a b js s') = int j"
    proof (rule Cons.IH [OF Cons.prems(1) True])
      show "id_st (stations s' ! j) = a" using Cons.prems(3) st by simp
      show "\<forall>i\<in>set js. id_st (stations s' ! i) = a \<longrightarrow> i = j"
        using Cons.prems(4) st by simp
    qed
    then show ?thesis by (simp only: r)
  next
    case False
    then have ij: "i = j" using Cons.prems(2) by simp
    have sel: "selectedIdx s' = int j"
      using Cons.prems(1,3) ij by (simp add: s'_def)
    have "\<forall>i\<in>set js. a = [] \<or> id_st (stations s' ! i) \<noteq> a"
      using Cons.prems(4) False st by auto
    then have "selectedIdx (restore_loop a b js s') = selectedIdx s'"
      by (rule restore_loop_sel_miss)
    then show ?thesis by (simp only: r sel)
  qed
qed

lemma restore_loop_play_hit:
  assumes "b \<noteq> []" "j \<in> set js" "id_st (stations s ! j) = b"
    "\<forall>i\<in>set js. id_st (stations s ! i) = b \<longrightarrow> i = j"
  shows "playingIdx (restore_loop a b js s) = int j"
  using assms
proof (induction js arbitrary: s)
  case Nil
  then show ?case by simp
next
  case (Cons i js)
  define s' where "s' =
       ((if b \<noteq> [] \<and> id_st (stations s ! i) = b then playingIdx_update (\<lambda>_. int i) else (\<lambda>u. u))
        ((if a \<noteq> [] \<and> id_st (stations s ! i) = a then selectedIdx_update (\<lambda>_. int i) else (\<lambda>u. u)) s))"
  have st: "stations s' = stations s" by (simp add: s'_def)
  have r: "restore_loop a b (i # js) s = restore_loop a b js s'"
    unfolding s'_def by (rule restore_loop_Cons)
  show ?case
  proof (cases "j \<in> set js")
    case True
    have "playingIdx (restore_loop a b js s') = int j"
    proof (rule Cons.IH [OF Cons.prems(1) True])
      show "id_st (stations s' ! j) = b" using Cons.prems(3) st by simp
      show "\<forall>i\<in>set js. id_st (stations s' ! i) = b \<longrightarrow> i = j"
        using Cons.prems(4) st by simp
    qed
    then show ?thesis by (simp only: r)
  next
    case False
    then have ij: "i = j" using Cons.prems(2) by simp
    have sel: "playingIdx s' = int j"
      using Cons.prems(1,3) ij by (simp add: s'_def)
    have "\<forall>i\<in>set js. b = [] \<or> id_st (stations s' ! i) \<noteq> b"
      using Cons.prems(4) False st by auto
    then have "playingIdx (restore_loop a b js s') = playingIdx s'"
      by (rule restore_loop_play_miss)
    then show ?thesis by (simp only: r sel)
  qed
qed

text \<open>An identifier that occurs once in a list of distinct identifiers has one index.\<close>

lemma unique_index:
  assumes "distinct (map id_st L)" "x \<in> set L"
  shows "\<exists>j<length L. L ! j = x \<and> (\<forall>i<length L. id_st (L ! i) = id_st x \<longrightarrow> i = j)"
proof -
  obtain j where j: "j < length L" "L ! j = x"
    using assms(2) by (auto simp: in_set_conv_nth)
  have "i = j" if "i < length L" "id_st (L ! i) = id_st x" for i
  proof (rule ccontr)
    assume "i \<noteq> j"
    then have "map id_st L ! i \<noteq> map id_st L ! j"
      using assms(1) that(1) j(1) by (simp add: distinct_conv_nth del: nth_map)
    then show False using that j by simp
  qed
  then show ?thesis using j by blast
qed


lemma distinct_fav_first:
  assumes "distinct (map id_st xs)"
  shows "distinct (map id_st (filter fav xs @ filter (\<lambda>y. \<not> fav y) xs))"
proof -
  have inj: "inj_on id_st (set xs)" and d: "distinct xs"
    using assms by (simp_all add: distinct_map)
  have "id_st ` {x \<in> set xs. fav x} \<inter> id_st ` {x \<in> set xs. \<not> fav x} = {}"
    using inj by (auto simp: inj_on_def)
  then show ?thesis
    using assms by (simp add: distinct_map_filter)
qed

lemma sortStations_fields:
  "stations (sortStations s) = stable_sort fav_first (stations s)"
  "selectedIdx (sortStations s) =
     selectedIdx (restore_loop
       (if selectedIdx s \<ge> 0 \<and> selectedIdx s < stationCount s
        then id_st (stations s ! nat (selectedIdx s)) else [])
       (if playingIdx s \<ge> 0 \<and> playingIdx s < stationCount s
        then id_st (stations s ! nat (playingIdx s)) else [])
       [0 ..< length (stable_sort fav_first (stations s))]
       (s\<lparr>stations := stable_sort fav_first (stations s)\<rparr>))"
  "playingIdx (sortStations s) =
     playingIdx (restore_loop
       (if selectedIdx s \<ge> 0 \<and> selectedIdx s < stationCount s
        then id_st (stations s ! nat (selectedIdx s)) else [])
       (if playingIdx s \<ge> 0 \<and> playingIdx s < stationCount s
        then id_st (stations s ! nat (playingIdx s)) else [])
       [0 ..< length (stable_sort fav_first (stations s))]
       (s\<lparr>stations := stable_sort fav_first (stations s)\<rparr>))"
  by (simp_all add: sortStations_def ensureVisible_def Let_def)

lemma follow_selected:
  assumes d: "distinct (map id_st (stations s))"
    and v: "0 \<le> selectedIdx s" "selectedIdx s < stationCount s"
    and ne: "id_st (stations s ! nat (selectedIdx s)) \<noteq> []"
  shows "0 \<le> selectedIdx (sortStations s) \<and>
         selectedIdx (sortStations s) < stationCount (sortStations s) \<and>
         id_st (stations (sortStations s) ! nat (selectedIdx (sortStations s))) =
           id_st (stations s ! nat (selectedIdx s))"
proof -
  define xs where "xs = stations s"
  define L where "L = filter fav xs @ filter (\<lambda>y. \<not> fav y) xs"
  define x where "x = xs ! nat (selectedIdx s)"
  have L: "stable_sort fav_first (stations s) = L"
    by (simp add: L_def xs_def stable_sort_fav_first)
  have xin: "x \<in> set L"
    using v by (auto simp: x_def L_def xs_def stationCount_def)
  have dL: "distinct (map id_st L)"
    unfolding L_def using d unfolding xs_def by (rule distinct_fav_first)
  obtain j where j: "j < length L" "L ! j = x"
      "\<forall>i<length L. id_st (L ! i) = id_st x \<longrightarrow> i = j"
    using unique_index [OF dL xin] by blast
  have sel: "selectedIdx (sortStations s) = int j"
    unfolding sortStations_fields(2) L
  proof (rule restore_loop_sel_hit)
    show "(if 0 \<le> selectedIdx s \<and> selectedIdx s < stationCount s
           then id_st (stations s ! nat (selectedIdx s)) else []) \<noteq> []"
      using v ne by simp
    show "j \<in> set [0..<length L]" using j(1) by simp
    show "id_st (stations (s\<lparr>stations := L\<rparr>) ! j) =
          (if 0 \<le> selectedIdx s \<and> selectedIdx s < stationCount s
           then id_st (stations s ! nat (selectedIdx s)) else [])"
      using v j(2) by (simp add: x_def xs_def)
    show "\<forall>i\<in>set [0..<length L].
            id_st (stations (s\<lparr>stations := L\<rparr>) ! i) =
            (if 0 \<le> selectedIdx s \<and> selectedIdx s < stationCount s
             then id_st (stations s ! nat (selectedIdx s)) else []) \<longrightarrow> i = j"
      using v j(3) by (simp add: x_def xs_def)
  qed
  have cnt: "stationCount (sortStations s) = int (length L)"
    by (simp add: stationCount_def sortStations_fields(1) L)
  show ?thesis
    using j(1,2) by (simp add: sel cnt sortStations_fields(1) L x_def xs_def)
qed

lemma follow_playing:
  assumes d: "distinct (map id_st (stations s))"
    and v: "0 \<le> playingIdx s" "playingIdx s < stationCount s"
    and ne: "id_st (stations s ! nat (playingIdx s)) \<noteq> []"
  shows "0 \<le> playingIdx (sortStations s) \<and>
         playingIdx (sortStations s) < stationCount (sortStations s) \<and>
         id_st (stations (sortStations s) ! nat (playingIdx (sortStations s))) =
           id_st (stations s ! nat (playingIdx s))"
proof -
  define xs where "xs = stations s"
  define L where "L = filter fav xs @ filter (\<lambda>y. \<not> fav y) xs"
  define x where "x = xs ! nat (playingIdx s)"
  have L: "stable_sort fav_first (stations s) = L"
    by (simp add: L_def xs_def stable_sort_fav_first)
  have xin: "x \<in> set L"
    using v by (auto simp: x_def L_def xs_def stationCount_def)
  have dL: "distinct (map id_st L)"
    unfolding L_def using d unfolding xs_def by (rule distinct_fav_first)
  obtain j where j: "j < length L" "L ! j = x"
      "\<forall>i<length L. id_st (L ! i) = id_st x \<longrightarrow> i = j"
    using unique_index [OF dL xin] by blast
  have sel: "playingIdx (sortStations s) = int j"
    unfolding sortStations_fields(3) L
  proof (rule restore_loop_play_hit)
    show "(if 0 \<le> playingIdx s \<and> playingIdx s < stationCount s
           then id_st (stations s ! nat (playingIdx s)) else []) \<noteq> []"
      using v ne by simp
    show "j \<in> set [0..<length L]" using j(1) by simp
    show "id_st (stations (s\<lparr>stations := L\<rparr>) ! j) =
          (if 0 \<le> playingIdx s \<and> playingIdx s < stationCount s
           then id_st (stations s ! nat (playingIdx s)) else [])"
      using v j(2) by (simp add: x_def xs_def)
    show "\<forall>i\<in>set [0..<length L].
            id_st (stations (s\<lparr>stations := L\<rparr>) ! i) =
            (if 0 \<le> playingIdx s \<and> playingIdx s < stationCount s
             then id_st (stations s ! nat (playingIdx s)) else []) \<longrightarrow> i = j"
      using v j(3) by (simp add: x_def xs_def)
  qed
  have cnt: "stationCount (sortStations s) = int (length L)"
    by (simp add: stationCount_def sortStations_fields(1) L)
  show ?thesis
    using j(1,2) by (simp add: sel cnt sortStations_fields(1) L x_def xs_def)
qed

text \<open>
  Claim C10, amended. \<open>sortStations\<close> leaves the favorites in their original order, followed
  by the other stations in their original order. When the identifiers are distinct, a valid
  \<open>selectedIdx\<close> (and likewise a valid \<open>playingIdx\<close>) whose station has a non-empty
  identifier is valid afterwards and points at the station with the same identifier.
  \<open>toggleFavorite\<close> with a valid index flips the mark, saves the favorites and sorts.
\<close>

theorem sortStations_favorites_first:
  assumes "distinct (map id_st (stations s))"
  shows "stations (sortStations s) =
           filter fav (stations s) @ filter (\<lambda>x. \<not> fav x) (stations s) \<and>
     (0 \<le> selectedIdx s \<and> selectedIdx s < stationCount s \<and>
      id_st (stations s ! nat (selectedIdx s)) \<noteq> [] \<longrightarrow>
        0 \<le> selectedIdx (sortStations s) \<and>
        selectedIdx (sortStations s) < stationCount (sortStations s) \<and>
        id_st (stations (sortStations s) ! nat (selectedIdx (sortStations s))) =
          id_st (stations s ! nat (selectedIdx s))) \<and>
     (0 \<le> playingIdx s \<and> playingIdx s < stationCount s \<and>
      id_st (stations s ! nat (playingIdx s)) \<noteq> [] \<longrightarrow>
        0 \<le> playingIdx (sortStations s) \<and>
        playingIdx (sortStations s) < stationCount (sortStations s) \<and>
        id_st (stations (sortStations s) ! nat (playingIdx (sortStations s))) =
          id_st (stations s ! nat (playingIdx s))) \<and>
     (0 \<le> idx \<and> idx < stationCount s \<longrightarrow>
        toggleFavorite idx s =
          sortStations (saveFavorites (s\<lparr>stations := (stations s)[nat idx :=
              (stations s ! nat idx)\<lparr>fav := \<not> fav (stations s ! nat idx)\<rparr>]\<rparr>)))"
proof (intro conjI impI)
  show "stations (sortStations s) =
           filter fav (stations s) @ filter (\<lambda>x. \<not> fav x) (stations s)"
    by (simp add: sortStations_fields(1) stable_sort_fav_first)
next
  assume "0 \<le> selectedIdx s \<and> selectedIdx s < stationCount s \<and>
      id_st (stations s ! nat (selectedIdx s)) \<noteq> []"
  then show "0 \<le> selectedIdx (sortStations s)"
    "selectedIdx (sortStations s) < stationCount (sortStations s)"
    "id_st (stations (sortStations s) ! nat (selectedIdx (sortStations s))) =
          id_st (stations s ! nat (selectedIdx s))"
    using follow_selected [OF assms] by blast+
next
  assume "0 \<le> playingIdx s \<and> playingIdx s < stationCount s \<and>
      id_st (stations s ! nat (playingIdx s)) \<noteq> []"
  then show "0 \<le> playingIdx (sortStations s)"
    "playingIdx (sortStations s) < stationCount (sortStations s)"
    "id_st (stations (sortStations s) ! nat (playingIdx (sortStations s))) =
          id_st (stations s ! nat (playingIdx s))"
    using follow_playing [OF assms] by blast+
next
  assume "0 \<le> idx \<and> idx < stationCount s"
  then show "toggleFavorite idx s =
          sortStations (saveFavorites (s\<lparr>stations := (stations s)[nat idx :=
              (stations s ! nat idx)\<lparr>fav := \<not> fav (stations s ! nat idx)\<rparr>]\<rparr>))"
    by (simp add: toggleFavorite_def Let_def)
qed

text \<open>
  Claim C10 as stated fails when the selected station has the empty identifier: the saved
  identifier is then the empty string, which line 641 reads as "no selection", so
  \<open>selectedIdx\<close> is not moved. Two stations with distinct identifiers, the first one
  unnamed and selected, the second one a favorite: after the sort index 0 is the favorite.
\<close>

theorem sortStations_empty_id_counterexample:
  "distinct (map id_st (stations unnamed_first)) \<and>
   selectedIdx unnamed_first = 0 \<and> stationCount unnamed_first = 2 \<and>
   id_st (stations unnamed_first ! 0) = [] \<and>
   selectedIdx (sortStations unnamed_first) = 0 \<and>
   id_st (stations (sortStations unnamed_first) ! 0) = ''dronezone''"
  by code_simp

text \<open>
  Instance of C10 (amended): three stations, the second a favorite, the first selected and
  the second playing.
\<close>

theorem sortStations_favorites_first_witness:
  "stations (sortStations (demo_player\<lparr>selectedIdx := 0, playingIdx := 1\<rparr>)) =
     directory [(''dronezone'', True), (''groovesalad'', False), (''lush'', False)] \<and>
   id_st (stations (sortStations (demo_player\<lparr>selectedIdx := 0, playingIdx := 1\<rparr>)) !
          nat (selectedIdx (sortStations (demo_player\<lparr>selectedIdx := 0, playingIdx := 1\<rparr>)))) =
     ''groovesalad'' \<and>
   id_st (stations (sortStations (demo_player\<lparr>selectedIdx := 0, playingIdx := 1\<rparr>)) !
          nat (playingIdx (sortStations (demo_player\<lparr>selectedIdx := 0, playingIdx := 1\<rparr>)))) =
     ''dronezone''"
proof -
  define dp where "dp = demo_player\<lparr>selectedIdx := 0, playingIdx := 1\<rparr>"
  have st: "stations dp =
      directory [(''groovesalad'', False), (''dronezone'', True), (''lush'', False)]"
    and ix: "selectedIdx dp = 0" "playingIdx dp = 1" "stationCount dp = 3"
    by (simp_all add: dp_def demo_player_def player_init_def stationCount_def directory_def)
  have d: "distinct (map id_st (stations dp))"
    by (simp add: st directory_def parsed_station_def)
  have ids: "id_st (stations dp ! nat 0) = ''groovesalad''"
            "id_st (stations dp ! nat 1) = ''dronezone''"
    by (simp_all add: st directory_def parsed_station_def)
  have fl: "filter fav (stations dp) @ filter (\<lambda>x. \<not> fav x) (stations dp) =
      directory [(''dronezone'', True), (''groovesalad'', False), (''lush'', False)]"
    by (simp add: st directory_def)
  note inst = sortStations_favorites_first [OF d, of 0, unfolded ix ids fl]
  have a: "stations (sortStations dp) =
      directory [(''dronezone'', True), (''groovesalad'', False), (''lush'', False)]"
    using inst by (rule conjunct1)
  have b: "id_st (stations (sortStations dp) ! nat (selectedIdx (sortStations dp))) =
      ''groovesalad''"
    using inst [THEN conjunct2, THEN conjunct1] by simp
  have c: "id_st (stations (sortStations dp) ! nat (playingIdx (sortStations dp))) =
      ''dronezone''"
    using inst [THEN conjunct2, THEN conjunct2, THEN conjunct1] by simp
  show ?thesis
    unfolding dp_def [symmetric] using a b c by (intro conjI)
qed

section \<open>Mid-stream failure: the grace window and the automatic retry\<close>










section \<open>One call of \<open>ConsumeSample\<close>, block by block\<close>

lemma downmix_paused [simp]: "downmix True g smp = 0"
  by (simp add: downmix_def)

lemma downmix_zero [simp]: "downmix False g (0, 0) = 0"
  by (simp add: downmix_def)

text \<open>What each block of \<open>ConsumeSample\<close> does to the fields used below.\<close>

lemma write_block_fields [simp]:
  "gainF2P6 (write_block m k) = gainF2P6 k"
  "buf (write_block m k) = (buf k)[nat (bp k) := m, nat (bp k + 1) := m]"
  "bp (write_block m k) = bp k + 2"
  "binCnt (write_block m k) = binCnt k" "binIdx (write_block m k) = binIdx k"
  "binAcc (write_block m k) = binAcc k" "visBins (write_block m k) = visBins k"
  "waveSub (write_block m k) = waveSub k" "visWaveW (write_block m k) = visWaveW k"
  "visWave (write_block m k) = visWave k"
  by (simp_all add: write_block_def Let_def)

lemma accumulate_fields [simp]:
  "gainF2P6 (accumulate a k) = gainF2P6 k"
  "buf (accumulate a k) = buf k"
  "binCnt (accumulate a k) = binCnt k + 1" "binIdx (accumulate a k) = binIdx k"
  "binAcc (accumulate a k) = (binAcc k)[nat (binIdx k) := binAcc k ! nat (binIdx k) + ucast a]"
  "visBins (accumulate a k) = visBins k"
  "waveSub (accumulate a k) = waveSub k" "visWaveW (accumulate a k) = visWaveW k"
  "visWave (accumulate a k) = visWave k"
  by (simp_all add: accumulate_def Let_def)

lemma emit_bin_fields [simp]:
  "gainF2P6 (emit_bin k) = gainF2P6 k"
  "buf (emit_bin k) = buf k"
  "binCnt (emit_bin k) = (if binCnt k \<ge> 92 then 0 else binCnt k)"
  "binIdx (emit_bin k) = (if binCnt k \<ge> 92 then (binIdx k + 1) smod 16 else binIdx k)"
  "binAcc (emit_bin k) = (if binCnt k \<ge> 92 then (binAcc k)[nat (binIdx k) := 0] else binAcc k)"
  "visBins (emit_bin k) =
     (if binCnt k \<ge> 92
      then (visBins k)[nat (binIdx k) := ucast (min 255
              (drop_bit 5 (binAcc k ! nat (binIdx k) div word_of_int (binCnt k))))]
      else visBins k)"
  "waveSub (emit_bin k) = waveSub k" "visWaveW (emit_bin k) = visWaveW k"
  "visWave (emit_bin k) = visWave k"
  by (simp_all add: emit_bin_def)

lemma emit_peak_fields [simp]:
  "gainF2P6 (emit_peak k) = gainF2P6 k"
  "buf (emit_peak k) = buf k"
  "binCnt (emit_peak k) = binCnt k" "binIdx (emit_peak k) = binIdx k"
  "binAcc (emit_peak k) = binAcc k" "visBins (emit_peak k) = visBins k"
  "waveSub (emit_peak k) = waveSub k" "visWaveW (emit_peak k) = visWaveW k"
  "visWave (emit_peak k) = visWave k"
  by (simp_all add: emit_peak_def)

lemma feed_wave_fields [simp]:
  "gainF2P6 (feed_wave m k) = gainF2P6 k"
  "buf (feed_wave m k) = buf k"
  "binCnt (feed_wave m k) = binCnt k" "binIdx (feed_wave m k) = binIdx k"
  "binAcc (feed_wave m k) = binAcc k" "visBins (feed_wave m k) = visBins k"
  "waveSub (feed_wave m k) = (if waveSub k + 1 \<ge> 11 then 0 else waveSub k + 1)"
  "visWaveW (feed_wave m k) = (if waveSub k + 1 \<ge> 11 then (visWaveW k + 1) smod 120 else visWaveW k)"
  "visWave (feed_wave m k) =
     (if waveSub k + 1 \<ge> 11
      then (visWave k)[nat (visWaveW k) := word_of_int (sint m div 2 ^ 8)]
      else visWave k)"
  by (simp_all add: feed_wave_def Let_def)

lemma flush_block_fields [simp]:
  "gainF2P6 (flush_block k) = gainF2P6 k"
  "buf (flush_block k) = buf k"
  "binCnt (flush_block k) = binCnt k" "binIdx (flush_block k) = binIdx k"
  "binAcc (flush_block k) = binAcc k" "visBins (flush_block k) = visBins k"
  "waveSub (flush_block k) = waveSub k" "visWaveW (flush_block k) = visWaveW k"
  "visWave (flush_block k) = visWave k"
  by (simp_all add: flush_block_def)

lemma ConsumeSample_accept:
  assumes "aCmd p = ACMD_NONE"
  shows "ConsumeSample p k smp =
    (True, flush_block (feed_wave (downmix (aPaused p) (gainF2P6 k) smp)
       (emit_peak (emit_bin (accumulate (absMono (downmix (aPaused p) (gainF2P6 k) smp))
          (write_block (downmix (aPaused p) (gainF2P6 k) smp) k))))))"
  using assms by (simp add: ConsumeSample_def Let_def)

lemma block_counters [simp]:
  "peakCnt (write_block m k) = peakCnt k"
  "bp (accumulate a k) = bp k"
  "peakCnt (accumulate a k) = peakCnt k + 1"
  "bp (emit_bin k) = bp k"
  "peakCnt (emit_bin k) = peakCnt k"
  "bp (emit_peak k) = bp k"
  "peakCnt (emit_peak k) = (if peakCnt k \<ge> 735 then 0 else peakCnt k)"
  "bp (feed_wave m k) = bp k"
  "peakCnt (feed_wave m k) = peakCnt k"
  "bp (flush_block k) = (if bp k \<ge> 512 then 0 else bp k)"
  "peakCnt (flush_block k) = peakCnt k"
  by (simp_all add: write_block_def accumulate_def emit_bin_def emit_peak_def feed_wave_def
      flush_block_def Let_def)

lemma smod_range: "0 \<le> a \<Longrightarrow> 0 < b \<Longrightarrow> 0 \<le> (a::int) smod b \<and> a smod b < b"
  by (simp add: smod_nonneg)

text \<open>The ranges hold initially and every call keeps them.\<close>

lemma sink_ok_init: "sink_ok sink_init"
  by (simp add: sink_ok_def sink_init_def)

lemma sink_ok_ConsumeSample:
  assumes "sink_ok k"
  shows "sink_ok (snd (ConsumeSample p k smp))"
proof (cases "aCmd p = ACMD_NONE")
  case False
  then show ?thesis using assms by (simp add: ConsumeSample_def)
next
  case True
  have i: "0 \<le> (binIdx k + 1) smod 16 \<and> (binIdx k + 1) smod 16 < 16"
    by (rule smod_range) (use assms in \<open>simp_all add: sink_ok_def\<close>)
  have w: "0 \<le> (visWaveW k + 1) smod 120 \<and> (visWaveW k + 1) smod 120 < 120"
    by (rule smod_range) (use assms in \<open>simp_all add: sink_ok_def\<close>)
  show ?thesis
    using assms i w unfolding sink_ok_def ConsumeSample_accept [OF True]
    by simp
qed

lemma sink_ok_consume_all: "sink_ok k \<Longrightarrow> sink_ok (consume_all k ins)"
proof (induction ins arbitrary: k)
  case Nil
  then show ?case by simp
next
  case (Cons e ins)
  obtain q y where e: "e = (q, y)" by (cases e)
  show ?case
  proof (cases "aCmd q = ACMD_NONE")
    case True
    have "sink_ok (snd (ConsumeSample q k y))"
      using Cons.prems by (rule sink_ok_ConsumeSample)
    then have "sink_ok (consume_all (snd (ConsumeSample q k y)) ins)"
      by (rule Cons.IH)
    then show ?thesis by (simp add: e ConsumeSample_accept [OF True])
  next
    case False
    then show ?thesis using Cons.prems by (simp add: e ConsumeSample_def)
  qed
qed

section \<open>Pause: silence with unchanged accounting\<close>

text \<open>
  Claim C5. A call with \<open>aPaused\<close> set and no pending command returns exactly what an
  unpaused call on the all-zero sample returns, the whole sink included (output block,
  accumulators, counters, bin index, waveform counter and cursor, flushed blocks); the
  sample written to both channels of the output block is 0, whatever the gain. The
  counters and indices are also the ones an unpaused call on the same sample leaves.
\<close>

theorem paused_call_is_silence:
  assumes "aCmd p = ACMD_NONE" "aPaused p"
  shows "ConsumeSample p k smp = ConsumeSample (p\<lparr>aPaused := False\<rparr>) k (0, 0) \<and>
         fst (ConsumeSample p k smp) \<and>
         downmix (aPaused p) (gainF2P6 k) smp = 0 \<and>
         buf (snd (ConsumeSample p k smp)) = (buf k)[nat (bp k) := 0, nat (bp k + 1) := 0] \<and>
         bp (snd (ConsumeSample p k smp)) =
           bp (snd (ConsumeSample (p\<lparr>aPaused := False\<rparr>) k smp)) \<and>
         binCnt (snd (ConsumeSample p k smp)) =
           binCnt (snd (ConsumeSample (p\<lparr>aPaused := False\<rparr>) k smp)) \<and>
         binIdx (snd (ConsumeSample p k smp)) =
           binIdx (snd (ConsumeSample (p\<lparr>aPaused := False\<rparr>) k smp)) \<and>
         peakCnt (snd (ConsumeSample p k smp)) =
           peakCnt (snd (ConsumeSample (p\<lparr>aPaused := False\<rparr>) k smp)) \<and>
         waveSub (snd (ConsumeSample p k smp)) =
           waveSub (snd (ConsumeSample (p\<lparr>aPaused := False\<rparr>) k smp)) \<and>
         visWaveW (snd (ConsumeSample p k smp)) =
           visWaveW (snd (ConsumeSample (p\<lparr>aPaused := False\<rparr>) k smp))"
  using assms by (simp add: ConsumeSample_accept)

text \<open>
  Instance of C5: the sample (1000, 2000) on the fresh sink, paused and unpaused (gain 64:
  the unpaused call writes 1500).
\<close>

theorem paused_call_is_silence_witness:
  "ConsumeSample (player_init\<lparr>aPaused := True\<rparr>) sink_init (1000, 2000) =
     ConsumeSample player_init sink_init (0, 0) \<and>
   buf (snd (ConsumeSample (player_init\<lparr>aPaused := True\<rparr>) sink_init (1000, 2000))) ! 0 = 0 \<and>
   buf (snd (ConsumeSample player_init sink_init (1000, 2000))) ! 0 = 1500"
proof -
  have a: "aCmd (player_init\<lparr>aPaused := True\<rparr>) = ACMD_NONE" "aPaused (player_init\<lparr>aPaused := True\<rparr>)"
    by (simp_all add: player_init_def)
  have b: "player_init\<lparr>aPaused := True\<rparr>\<lparr>aPaused := False\<rparr> = player_init"
    by (simp add: player_init_def)
  have c: "buf (snd (ConsumeSample player_init sink_init (1000, 2000))) ! 0 = 1500"
    by (simp add: ConsumeSample_accept player_init_def sink_init_def downmix_def)
  note inst = paused_call_is_silence [OF a, of sink_init "(1000, 2000)", unfolded b]
  have e1: "ConsumeSample (player_init\<lparr>aPaused := True\<rparr>) sink_init (1000, 2000) =
      ConsumeSample player_init sink_init (0, 0)"
    using inst by (rule conjunct1)
  have e2: "buf (snd (ConsumeSample (player_init\<lparr>aPaused := True\<rparr>) sink_init (1000, 2000))) =
      (buf sink_init)[nat (bp sink_init) := 0, nat (bp sink_init + 1) := 0]"
    using inst [THEN conjunct2, THEN conjunct2, THEN conjunct2, THEN conjunct1] .
  have e3: "buf (snd (ConsumeSample (player_init\<lparr>aPaused := True\<rparr>) sink_init (1000, 2000))) ! 0 = 0"
    unfolding e2 by (simp add: sink_init_def)
  show ?thesis
    using e1 e3 c by (intro conjI)
qed

section \<open>Telemetry: amplitude bins\<close>

text \<open>A run of accepted calls, one call at a time from the end.\<close>

lemma consume_all_accept:
  "aCmd p = ACMD_NONE \<Longrightarrow>
   consume_all k ((p, x) # rest) = consume_all (snd (ConsumeSample p k x)) rest"
  by (simp add: ConsumeSample_accept)

lemma consume_all_snoc:
  "\<forall>e\<in>set ins. aCmd (fst e) = ACMD_NONE \<Longrightarrow>
   consume_all k (ins @ [(p, x)]) = snd (ConsumeSample p (consume_all k ins) x)"
proof (induction ins arbitrary: k)
  case Nil
  show ?case by (cases "ConsumeSample p k x") (auto split: bool.splits)
next
  case (Cons e ins)
  obtain q y where e: "e = (q, y)" by (cases e)
  have q: "aCmd q = ACMD_NONE" using Cons.prems e by simp
  have "consume_all k ((e # ins) @ [(p, x)]) =
        consume_all (snd (ConsumeSample q k y)) (ins @ [(p, x)])"
    unfolding e append_Cons by (rule consume_all_accept [OF q])
  also have "\<dots> = snd (ConsumeSample p (consume_all (snd (ConsumeSample q k y)) ins) x)"
    by (rule Cons.IH) (use Cons.prems in simp)
  also have "consume_all (snd (ConsumeSample q k y)) ins = consume_all k (e # ins)"
    unfolding e by (rule consume_all_accept [OF q, symmetric])
  finally show ?case .
qed

lemma consume_all_gain:
  "gainF2P6 (consume_all k ins) = gainF2P6 k"
proof (induction ins arbitrary: k)
  case Nil
  show ?case by simp
next
  case (Cons e ins)
  obtain q y where e: "e = (q, y)" by (cases e)
  show ?case
  proof (cases "aCmd q = ACMD_NONE")
    case True
    have "gainF2P6 (consume_all k (e # ins)) =
          gainF2P6 (consume_all (snd (ConsumeSample q k y)) ins)"
      unfolding e by (simp only: consume_all_accept [OF True])
    also have "\<dots> = gainF2P6 (snd (ConsumeSample q k y))"
      by (rule Cons.IH)
    also have "\<dots> = gainF2P6 k"
      by (simp add: ConsumeSample_accept [OF True])
    finally show ?thesis .
  next
    case False
    then show ?thesis by (simp add: e ConsumeSample_def)
  qed
qed

text \<open>The magnitude of a 16-bit sample is at most 32768, so a window sum fits 32 bits.\<close>

lemma unat_word_of_int_16:
  assumes "0 \<le> z" "z < 65536"
  shows "unat (word_of_int z :: 16 word) = nat z"
proof -
  have "uint (word_of_int z :: 16 word) = z"
    using assms by (simp add: uint_word_of_int)
  then have "nat (uint (word_of_int z :: 16 word)) = nat z"
    by (rule arg_cong)
  then show ?thesis by (simp only: nat_uint_eq)
qed

lemma absMono_bound: "unat (absMono m) \<le> 32768"
proof -
  have r: "- 32768 \<le> sint m" "sint m < 32768"
    using sint_ge [of m] sint_lt [of m] by simp_all
  show ?thesis
  proof (cases "sint m < 0")
    case True
    have "unat (absMono m) = unat (word_of_int (- sint m) :: 16 word)"
      using True by (simp add: absMono_def)
    also have "\<dots> = nat (- sint m)"
      by (rule unat_word_of_int_16) (use r True in simp_all)
    finally show ?thesis using r by simp
  next
    case False
    have "unat (absMono m) = unat (word_of_int (sint m) :: 16 word)"
      using False by (simp add: absMono_def)
    also have "\<dots> = nat (sint m)"
      by (rule unat_word_of_int_16) (use r False in simp_all)
    finally show ?thesis using r by simp
  qed
qed

lemma amplitude_bound: "amplitude g e \<le> 32768"
  by (simp add: amplitude_def absMono_bound)

lemma sum_amplitude_bound:
  "sum_list (map (amplitude g) es) \<le> length es * 32768"
  by (induction es) (simp_all add: add_mono amplitude_bound)

lemma ucast_absMono:
  "(ucast (absMono (downmix (aPaused p) g x)) :: 32 word) = of_nat (amplitude g (p, x))"
  by (simp add: amplitude_def)

text \<open>The emitted bin in natural numbers: \<open>min(255, (sum / 92) >> 5)\<close>.\<close>

lemma bin_value:
  assumes "T < 2 ^ 32"
  shows "unat (ucast (min 255 (drop_bit 5 ((of_nat T :: 32 word) div 92))) :: 8 word) =
         min 255 (T div 92 div 2 ^ 5)"
proof -
  have u: "unat (of_nat T :: 32 word) = T"
    using assms by (simp add: unat_of_nat)
  have d: "unat ((of_nat T :: 32 word) div 92) = T div 92"
    by (simp add: unat_div u)
  have "unat (drop_bit 5 ((of_nat T :: 32 word) div 92)) =
        drop_bit 5 (unat ((of_nat T :: 32 word) div 92))"
    by (rule unat_drop_bit_eq)
  also have "\<dots> = T div 92 div 2 ^ 5"
    unfolding d by (rule drop_bit_eq_div)
  finally have s: "unat (drop_bit 5 ((of_nat T :: 32 word) div 92)) = T div 92 div 2 ^ 5" .
  have m: "unat (min 255 (drop_bit 5 ((of_nat T :: 32 word) div 92))) = min 255 (T div 92 div 2 ^ 5)"
    using s by (simp add: min_def word_le_nat_alt)
  have "unat (ucast (min 255 (drop_bit 5 ((of_nat T :: 32 word) div 92))) :: 8 word) =
        unat (min 255 (drop_bit 5 ((of_nat T :: 32 word) div 92))) mod 2 ^ 8"
    by (simp add: unsigned_ucast_eq take_bit_eq_mod)
  also have "\<dots> = min 255 (T div 92 div 2 ^ 5)"
    unfolding m by simp
  finally show ?thesis .
qed

lemma replicate_update_same: "(replicate n x)[i := x] = replicate n x"
  by (induction n arbitrary: i) (auto split: nat.splits)

text \<open>One accepted call inside a window, and the call that completes it.\<close>

lemma bins_step:
  assumes p: "aCmd p = ACMD_NONE"
    and k: "binCnt k = int r" "binIdx k = int i" "i < 16"
           "binAcc k = (replicate 16 0)[i := of_nat S]"
  shows "r < 91 \<Longrightarrow>
           binCnt (snd (ConsumeSample p k x)) = int (r + 1) \<and>
           binIdx (snd (ConsumeSample p k x)) = int i \<and>
           binAcc (snd (ConsumeSample p k x)) =
             (replicate 16 0)[i := of_nat (S + amplitude (gainF2P6 k) (p, x))] \<and>
           visBins (snd (ConsumeSample p k x)) = visBins k"
    and "r = 91 \<Longrightarrow>
           binCnt (snd (ConsumeSample p k x)) = 0 \<and>
           binIdx (snd (ConsumeSample p k x)) = int ((i + 1) mod 16) \<and>
           binAcc (snd (ConsumeSample p k x)) = replicate 16 0 \<and>
           visBins (snd (ConsumeSample p k x)) =
             (visBins k)[i := ucast (min 255 (drop_bit 5
                ((of_nat (S + amplitude (gainF2P6 k) (p, x)) :: 32 word) div 92)))]"
proof -
  have sm: "(int i + 1) smod 16 = int ((i + 1) mod 16)"
    using k(3) by (simp add: smod_nonneg zmod_int add.commute)
  {
    assume "r < 91"
    then show "binCnt (snd (ConsumeSample p k x)) = int (r + 1) \<and>
           binIdx (snd (ConsumeSample p k x)) = int i \<and>
           binAcc (snd (ConsumeSample p k x)) =
             (replicate 16 0)[i := of_nat (S + amplitude (gainF2P6 k) (p, x))] \<and>
           visBins (snd (ConsumeSample p k x)) = visBins k"
      using k by (simp add: ConsumeSample_accept [OF p] ucast_absMono)
  }
  {
    assume "r = 91"
    then show "binCnt (snd (ConsumeSample p k x)) = 0 \<and>
           binIdx (snd (ConsumeSample p k x)) = int ((i + 1) mod 16) \<and>
           binAcc (snd (ConsumeSample p k x)) = replicate 16 0 \<and>
           visBins (snd (ConsumeSample p k x)) =
             (visBins k)[i := ucast (min 255 (drop_bit 5
                ((of_nat (S + amplitude (gainF2P6 k) (p, x)) :: 32 word) div 92)))]"
      using k sm
      by (simp add: ConsumeSample_accept [OF p] ucast_absMono replicate_update_same)
  }
qed

text \<open>
  The accumulator state after any number of accepted calls from the reset state: only the
  active bin accumulates, and it holds the sum of the running window.
\<close>

lemma bins_invariant:
  assumes acc: "\<forall>e\<in>set ins. aCmd (fst e) = ACMD_NONE"
    and reset: "binIdx k0 = 0" "binCnt k0 = 0" "binAcc k0 = replicate 16 0"
      "length (visBins k0) = 16"
  shows "binCnt (consume_all k0 ins) = int (length ins mod 92) \<and>
         binIdx (consume_all k0 ins) = int (length ins div 92 mod 16) \<and>
         binAcc (consume_all k0 ins) =
           (replicate 16 0)[length ins div 92 mod 16 :=
              of_nat (sum_list (map (amplitude (gainF2P6 k0)) (drop (length ins div 92 * 92) ins)))] \<and>
         length (visBins (consume_all k0 ins)) = 16 \<and>
         (0 < length ins \<and> length ins mod 92 = 0 \<longrightarrow>
            unat (visBins (consume_all k0 ins) ! ((length ins div 92 - 1) mod 16)) =
              min 255 (sum_list (map (amplitude (gainF2P6 k0)) (drop (length ins - 92) ins))
                        div 92 div 2 ^ 5))"
  using acc
proof (induction ins rule: rev_induct)
  case Nil
  show ?case using reset by (simp add: replicate_update_same)
next
  case (snoc e ins)
  obtain p x where e: "e = (p, x)" by (cases e)
  have p: "aCmd p = ACMD_NONE" and accs: "\<forall>e\<in>set ins. aCmd (fst e) = ACMD_NONE"
    using snoc.prems e by simp_all
  define k where "k = consume_all k0 ins"
  define N where "N = length ins"
  define q where "q = N div 92"
  define r where "r = N mod 92"
  define g where "g = gainF2P6 k0"
  define S where "S = sum_list (map (amplitude g) (drop (q * 92) ins))"
  have N: "N = q * 92 + r" and r: "r < 92"
    by (simp_all add: q_def r_def)
  have ih: "binCnt k = int r" "binIdx k = int (q mod 16)"
    "binAcc k = (replicate 16 0)[q mod 16 := of_nat S]" "length (visBins k) = 16"
    using snoc.IH [OF accs] by (simp_all add: k_def N_def q_def r_def S_def g_def)
  have gk: "gainF2P6 k = g"
    by (simp add: k_def g_def consume_all_gain)
  have step: "consume_all k0 (ins @ [e]) = snd (ConsumeSample p k x)"
    unfolding e k_def by (rule consume_all_snoc [OF accs])
  have len: "length (ins @ [e]) = N + 1" by (simp add: N_def)
  have dr: "drop (q * 92) (ins @ [e]) = drop (q * 92) ins @ [e]"
    using N by (simp add: N_def)
  have sum': "sum_list (map (amplitude g) (drop (q * 92) (ins @ [e]))) = S + amplitude g (p, x)"
    unfolding dr by (simp add: S_def e)
  have i16: "q mod 16 < 16" by simp
  show ?case
  proof (cases "r < 91")
    case True
    have dm: "(N + 1) div 92 = q" "(N + 1) mod 92 = r + 1"
      using True N by simp_all
    note st = bins_step(1) [OF p ih(1) ih(2) i16 ih(3) True, of x, unfolded gk]
    show ?thesis
      unfolding step len dm g_def [symmetric] sum'
      using st ih(4) by simp
  next
    case False
    then have r91: "r = 91" using r by simp
    have dm: "(N + 1) div 92 = q + 1" "(N + 1) mod 92 = 0"
      using r91 N by simp_all
    note st = bins_step(2) [OF p ih(1) ih(2) i16 ih(3) r91, of x, unfolded gk]
    have nil: "drop ((q + 1) * 92) (ins @ [e]) = []"
      using N r91 by (simp add: N_def)
    have last: "N + 1 - 92 = q * 92"
      using N r91 by simp
    have T: "S + amplitude g (p, x) < 2 ^ 32"
    proof -
      have "S + amplitude g (p, x) \<le> length (drop (q * 92) (ins @ [e])) * 32768"
        unfolding sum' [symmetric] by (rule sum_amplitude_bound)
      also have "length (drop (q * 92) (ins @ [e])) = 92"
        using N r91 by (simp add: N_def)
      finally show ?thesis by simp
    qed
    have idx: "Suc q mod 16 = (q mod 16 + 1) mod 16"
      by (simp add: mod_Suc_eq)
    have "visBins (snd (ConsumeSample p k x)) ! (q mod 16) =
            ucast (min 255 (drop_bit 5
              ((of_nat (S + amplitude g (p, x)) :: 32 word) div 92)))"
      unfolding st [THEN conjunct2, THEN conjunct2, THEN conjunct2]
      using ih(4) by (simp del: of_nat_add)
    then have val: "unat (visBins (snd (ConsumeSample p k x)) ! (q mod 16)) =
               min 255 ((S + amplitude g (p, x)) div 92 div 2 ^ 5)"
      by (simp only: bin_value [OF T])
    show ?thesis
      unfolding step len dm g_def [symmetric] nil last sum'
      using st ih(4) val by (simp add: replicate_update_same idx)
  qed
qed

text \<open>
  Claim C7. From the reset accumulator state (bin index 0, count 0, sums 0), after \<open>N\<close>
  accepted calls the active bin index is \<open>(N div 92) mod 16\<close>. The bin emitted at the end
  of window \<open>j\<close>, that is after \<open>(j + 1) * 92\<close> calls, is stored at index \<open>j mod 16\<close> and its
  value is \<open>min 255 ((windowSum div 92) >> 5)\<close>, where \<open>windowSum\<close> is the sum of the
  magnitudes of the 92 output samples of that window.
\<close>

theorem bins_after_samples:
  assumes "\<forall>e\<in>set ins. aCmd (fst e) = ACMD_NONE"
    and "binIdx k0 = 0" "binCnt k0 = 0" "binAcc k0 = replicate 16 0"
      "length (visBins k0) = 16"
  shows "binIdx (consume_all k0 ins) = int (length ins div 92 mod 16) \<and>
         (\<forall>j. (j + 1) * 92 \<le> length ins \<longrightarrow>
            unat (visBins (consume_all k0 (take ((j + 1) * 92) ins)) ! (j mod 16)) =
              min 255 (sum_list (map (amplitude (gainF2P6 k0)) (take 92 (drop (j * 92) ins)))
                        div 92 div 2 ^ 5))"
proof (intro conjI allI impI)
  show "binIdx (consume_all k0 ins) = int (length ins div 92 mod 16)"
    using bins_invariant [OF assms] by blast
next
  fix j
  assume j: "(j + 1) * 92 \<le> length ins"
  define pre where "pre = take ((j + 1) * 92) ins"
  have len: "length pre = (j + 1) * 92"
    using j by (simp add: pre_def)
  have acc: "\<forall>e\<in>set pre. aCmd (fst e) = ACMD_NONE"
    using assms(1) set_take_subset [of "(j + 1) * 92" ins] by (auto simp: pre_def)
  have dm: "length pre mod 92 = 0" "length pre div 92 - 1 = j" "0 < length pre"
    "length pre - 92 = j * 92"
    by (simp_all add: len)
  have win: "drop (j * 92) pre = take 92 (drop (j * 92) ins)"
    by (simp add: pre_def drop_take)
  have "unat (visBins (consume_all k0 pre) ! ((length pre div 92 - 1) mod 16)) =
          min 255 (sum_list (map (amplitude (gainF2P6 k0)) (drop (length pre - 92) pre))
                    div 92 div 2 ^ 5)"
    using bins_invariant [OF acc assms(2-)] dm(1,3) by blast
  then show "unat (visBins (consume_all k0 (take ((j + 1) * 92) ins)) ! (j mod 16)) =
              min 255 (sum_list (map (amplitude (gainF2P6 k0)) (take 92 (drop (j * 92) ins)))
                        div 92 div 2 ^ 5)"
    unfolding dm win by (simp only: pre_def)
qed

lemma amplitude_3200: "amplitude 64 (player_init, (3200, 3200)) = 3200"
  by (simp add: amplitude_def downmix_def absMono_def player_init_def)

text \<open>
  Instance of C7: the constant sample (3200, 3200) at gain 64. After one window the index
  is 1 and bin 0 holds \<open>3200 >> 5 = 100\<close>; after 16 windows the index is back at 0.
\<close>

theorem bins_after_samples_witness:
  "binIdx (consume_all sink_init (replicate 92 (player_init, (3200, 3200)))) = 1 \<and>
   unat (visBins (consume_all sink_init (replicate 92 (player_init, (3200, 3200)))) ! 0) = 100 \<and>
   binIdx (consume_all sink_init (replicate 1472 (player_init, (3200, 3200)))) = 0"
proof -
  have acc: "\<forall>e\<in>set (replicate n (player_init, (3200, 3200))). aCmd (fst e) = ACMD_NONE" for n
    by (simp add: player_init_def)
  have r: "binIdx sink_init = 0" "binCnt sink_init = 0" "binAcc sink_init = replicate 16 0"
    "length (visBins sink_init) = 16" "gainF2P6 sink_init = 64"
    by (simp_all add: sink_init_def)
  note one = bins_after_samples [OF acc r(1-4), of 92]
  note all = bins_after_samples [OF acc r(1-4), of 1472]
  have a: "binIdx (consume_all sink_init (replicate 92 (player_init, (3200, 3200)))) = 1"
    using one [THEN conjunct1] by simp
  have b: "unat (visBins (consume_all sink_init (replicate 92 (player_init, (3200, 3200)))) ! 0) = 100"
    using one [THEN conjunct2, rule_format, of 0]
    by (simp add: r(5) amplitude_3200 sum_list_replicate)
  have c: "binIdx (consume_all sink_init (replicate 1472 (player_init, (3200, 3200)))) = 0"
    using all [THEN conjunct1] by simp
  show ?thesis using a b c by (intro conjI)
qed

section \<open>Telemetry: the waveform ring\<close>

text \<open>One accepted call between two captures, and the call that captures.\<close>

lemma wave_step:
  assumes p: "aCmd p = ACMD_NONE"
    and k: "waveSub k = int r" "visWaveW k = int c" "c < 120"
  shows "r < 10 \<Longrightarrow>
           waveSub (snd (ConsumeSample p k x)) = int (r + 1) \<and>
           visWaveW (snd (ConsumeSample p k x)) = int c \<and>
           visWave (snd (ConsumeSample p k x)) = visWave k"
    and "r = 10 \<Longrightarrow>
           waveSub (snd (ConsumeSample p k x)) = 0 \<and>
           visWaveW (snd (ConsumeSample p k x)) = int ((c + 1) mod 120) \<and>
           visWave (snd (ConsumeSample p k x)) =
             (visWave k)[c := wave_byte (gainF2P6 k) (p, x)]"
proof -
  have sm: "(int c + 1) smod 120 = int ((c + 1) mod 120)"
    using k(3) by (simp add: smod_nonneg zmod_int add.commute)
  {
    assume "r < 10"
    then show "waveSub (snd (ConsumeSample p k x)) = int (r + 1) \<and>
           visWaveW (snd (ConsumeSample p k x)) = int c \<and>
           visWave (snd (ConsumeSample p k x)) = visWave k"
      using k by (simp add: ConsumeSample_accept [OF p])
  }
  {
    assume "r = 10"
    then show "waveSub (snd (ConsumeSample p k x)) = 0 \<and>
           visWaveW (snd (ConsumeSample p k x)) = int ((c + 1) mod 120) \<and>
           visWave (snd (ConsumeSample p k x)) =
             (visWave k)[c := wave_byte (gainF2P6 k) (p, x)]"
      using k sm by (simp add: ConsumeSample_accept [OF p] wave_byte_def)
  }
qed

lemma mod_120_differ:
  assumes "j < M" "M < j + 120"
  shows "j mod 120 \<noteq> M mod (120::nat)"
proof
  assume "j mod 120 = M mod 120"
  then have "M mod 120 = j mod 120" by simp
  then have "120 dvd M - j"
    using assms(1) by (simp add: mod_eq_dvd_iff_nat)
  moreover have "0 < M - j" "M - j < 120" using assms by simp_all
  ultimately show False by (auto dest: dvd_imp_le)
qed

text \<open>
  The waveform ring after any number of accepted calls from the empty state: capture \<open>j\<close>
  is input number \<open>11 * j + 10\<close> and sits at index \<open>j mod 120\<close> until it is overwritten
  120 captures later; slots not yet reached keep their initial content.
\<close>

lemma wave_invariant:
  assumes acc: "\<forall>e\<in>set ins. aCmd (fst e) = ACMD_NONE"
    and reset: "waveSub k0 = 0" "visWaveW k0 = 0" "length (visWave k0) = 120"
  shows "waveSub (consume_all k0 ins) = int (length ins mod 11) \<and>
         visWaveW (consume_all k0 ins) = int (length ins div 11 mod 120) \<and>
         length (visWave (consume_all k0 ins)) = 120 \<and>
         (\<forall>j. j < length ins div 11 \<and> length ins div 11 \<le> j + 120 \<longrightarrow>
              visWave (consume_all k0 ins) ! (j mod 120) =
                wave_byte (gainF2P6 k0) (ins ! (11 * j + 10))) \<and>
         (\<forall>i. length ins div 11 \<le> i \<and> i < 120 \<longrightarrow>
              visWave (consume_all k0 ins) ! i = visWave k0 ! i)"
  using acc
proof (induction ins rule: rev_induct)
  case Nil
  show ?case using reset by simp
next
  case (snoc e ins)
  obtain p x where e: "e = (p, x)" by (cases e)
  have p: "aCmd p = ACMD_NONE" and accs: "\<forall>e\<in>set ins. aCmd (fst e) = ACMD_NONE"
    using snoc.prems e by simp_all
  define k where "k = consume_all k0 ins"
  define N where "N = length ins"
  define M where "M = N div 11"
  define r where "r = N mod 11"
  define g where "g = gainF2P6 k0"
  have N: "N = 11 * M + r" and r: "r < 11"
    by (simp_all add: M_def r_def)
  have ih: "waveSub k = int r" "visWaveW k = int (M mod 120)" "length (visWave k) = 120"
    and ihw: "\<And>j. j < M \<Longrightarrow> M \<le> j + 120 \<Longrightarrow>
                visWave k ! (j mod 120) = wave_byte g (ins ! (11 * j + 10))"
    and ihu: "\<And>i. M \<le> i \<Longrightarrow> i < 120 \<Longrightarrow> visWave k ! i = visWave k0 ! i"
    using snoc.IH [OF accs] by (simp_all add: k_def N_def M_def r_def g_def)
  have gk: "gainF2P6 k = g"
    by (simp add: k_def g_def consume_all_gain)
  have step: "consume_all k0 (ins @ [e]) = snd (ConsumeSample p k x)"
    unfolding e k_def by (rule consume_all_snoc [OF accs])
  have len: "length (ins @ [e]) = N + 1" by (simp add: N_def)
  have c120: "M mod 120 < 120" by simp
  have old: "(ins @ [e]) ! (11 * j + 10) = ins ! (11 * j + 10)" if "j < M" for j
  proof -
    have "11 * j + 10 < length ins" using that N by (simp add: N_def)
    then show ?thesis by (simp add: nth_append)
  qed
  show ?case
  proof (cases "r < 10")
    case True
    have dm: "(N + 1) div 11 = M" "(N + 1) mod 11 = r + 1"
      using True N by simp_all
    note st = wave_step(1) [OF p ih(1) ih(2) c120 True, of x]
    show ?thesis
      unfolding step len dm g_def [symmetric]
      using st ih(3) ihw ihu old by simp
  next
    case False
    then have r10: "r = 10" using r by simp
    have dm: "(N + 1) div 11 = M + 1" "(N + 1) mod 11 = 0"
      using r10 N by simp_all
    note st = wave_step(2) [OF p ih(1) ih(2) c120 r10, of x, unfolded gk]
    have vw: "visWave (snd (ConsumeSample p k x)) = (visWave k)[M mod 120 := wave_byte g (p, x)]"
      using st by blast
    have new: "(ins @ [e]) ! (11 * M + 10) = (p, x)"
      using N r10 by (simp add: N_def nth_append e)
    have w: "visWave (snd (ConsumeSample p k x)) ! (j mod 120) =
               wave_byte g ((ins @ [e]) ! (11 * j + 10))"
      if "j < M + 1" "M + 1 \<le> j + 120" for j
    proof (cases "j = M")
      case True
      show ?thesis unfolding vw True new using ih(3) by simp
    next
      case False
      then have jm: "j < M" using that(1) by simp
      have "j mod 120 \<noteq> M mod 120"
        by (rule mod_120_differ) (use jm that(2) in simp_all)
      then have "visWave (snd (ConsumeSample p k x)) ! (j mod 120) = visWave k ! (j mod 120)"
        unfolding vw by simp
      also have "\<dots> = wave_byte g (ins ! (11 * j + 10))"
        by (rule ihw) (use jm that(2) in simp_all)
      finally show ?thesis by (simp add: old [OF jm])
    qed
    have u: "visWave (snd (ConsumeSample p k x)) ! i = visWave k0 ! i"
      if "M + 1 \<le> i" "i < 120" for i
    proof -
      have "M mod 120 = M" using that by simp
      then have "i \<noteq> M mod 120" using that by simp
      then have "visWave (snd (ConsumeSample p k x)) ! i = visWave k ! i"
        unfolding vw by simp
      also have "\<dots> = visWave k0 ! i"
        by (rule ihu) (use that in simp_all)
      finally show ?thesis .
    qed
    have idx: "Suc M mod 120 = (M mod 120 + 1) mod 120"
      by (simp add: mod_Suc_eq)
    show ?thesis
      unfolding step len dm g_def [symmetric]
      using st ih(3) w u by (simp add: idx)
  qed
qed

lemma inj_on_mod_window:
  assumes "n \<le> 120"
  shows "inj_on (\<lambda>j. j mod (120::nat)) {a ..< a + n}"
proof (rule inj_onI)
  fix x y
  assume x: "x \<in> {a ..< a + n}" and y: "y \<in> {a ..< a + n}"
    and eq: "x mod 120 = y mod 120"
  show "x = y"
  proof (rule ccontr)
    assume ne: "x \<noteq> y"
    show False
    proof (cases "x < y")
      case True
      then have "x mod 120 \<noteq> y mod 120"
        by (rule mod_120_differ) (use x y assms in simp)
      then show False using eq by simp
    next
      case False
      then have "y < x" using ne by simp
      then have "y mod 120 \<noteq> x mod 120"
        by (rule mod_120_differ) (use x y assms in simp)
      then show False using eq by simp
    qed
  qed
qed

text \<open>
  Claim C8, amended. From the empty ring (counter 0, cursor 0), after the calls that capture
  \<open>M\<close> decimated samples the cursor is \<open>M mod 120\<close>; the ring holds exactly the last
  \<open>min M 120\<close> captures, capture \<open>j\<close> at index \<open>j mod 120\<close>, on \<open>min M 120\<close> distinct
  indices, and the slots from \<open>M\<close> on (when \<open>M < 120\<close>) still hold their initial content.
  For \<open>M \<ge> 1\<close> the most recent capture sits at index \<open>(M - 1) mod 120\<close>: that is
  \<open>(M mod 120) - 1\<close> when \<open>M\<close> is not a multiple of 120, and 119 when it is.
\<close>

theorem waveform_after_samples:
  assumes "\<forall>e\<in>set ins. aCmd (fst e) = ACMD_NONE"
    and "waveSub k0 = 0" "visWaveW k0 = 0" "length (visWave k0) = 120"
    and "M = length ins div 11"
  shows "visWaveW (consume_all k0 ins) = int (M mod 120) \<and>
         (\<forall>j. M - min M 120 \<le> j \<and> j < M \<longrightarrow>
              visWave (consume_all k0 ins) ! (j mod 120) =
                wave_byte (gainF2P6 k0) (ins ! (11 * j + 10))) \<and>
         card ((\<lambda>j. j mod 120) ` {M - min M 120 ..< M}) = min M 120 \<and>
         (\<forall>i. M \<le> i \<and> i < 120 \<longrightarrow>
              visWave (consume_all k0 ins) ! i = visWave k0 ! i) \<and>
         (1 \<le> M \<longrightarrow>
              visWave (consume_all k0 ins) ! ((M - 1) mod 120) =
                wave_byte (gainF2P6 k0) (ins ! (11 * (M - 1) + 10)) \<and>
              (M mod 120 \<noteq> 0 \<longrightarrow> int ((M - 1) mod 120) = int (M mod 120) - 1) \<and>
              (M mod 120 = 0 \<longrightarrow> (M - 1) mod 120 = 119))"
proof -
  note inv = wave_invariant [OF assms(1-4), folded assms(5)]
  have cur: "visWaveW (consume_all k0 ins) = int (M mod 120)"
    using inv by blast
  have w: "visWave (consume_all k0 ins) ! (j mod 120) =
             wave_byte (gainF2P6 k0) (ins ! (11 * j + 10))"
    if "j < M" "M \<le> j + 120" for j
    using inv that by blast
  have u: "visWave (consume_all k0 ins) ! i = visWave k0 ! i" if "M \<le> i" "i < 120" for i
    using inv that by blast
  have "inj_on (\<lambda>j. j mod (120::nat)) {M - min M 120 ..< (M - min M 120) + min M 120}"
    by (rule inj_on_mod_window) simp
  then have "card ((\<lambda>j. j mod 120) ` {M - min M 120 ..< (M - min M 120) + min M 120}) =
             card {M - min M 120 ..< (M - min M 120) + min M 120}"
    by (rule card_image)
  moreover have "(M - min M 120) + min M 120 = M" by simp
  ultimately have c: "card ((\<lambda>j. j mod 120) ` {M - min M 120 ..< M}) = min M 120"
    by simp
  have last: "visWave (consume_all k0 ins) ! ((M - 1) mod 120) =
                wave_byte (gainF2P6 k0) (ins ! (11 * (M - 1) + 10))" if "1 \<le> M"
    by (rule w) (use that in simp_all)
  have a1: "int ((M - 1) mod 120) = int (M mod 120) - 1" if h: "1 \<le> M" "M mod 120 \<noteq> 0"
  proof -
    obtain m where M: "M = Suc m" by (cases M) (use h(1) in auto)
    have "Suc m mod 120 = Suc (m mod 120)"
      using h(2) unfolding M by (simp add: mod_Suc split: if_splits)
    then show ?thesis unfolding M by simp
  qed
  have a2: "(M - 1) mod 120 = 119" if h: "1 \<le> M" "M mod 120 = 0"
  proof -
    obtain m where M: "M = Suc m" by (cases M) (use h(1) in auto)
    have "Suc (m mod 120) = 120"
      using h(2) unfolding M by (simp add: mod_Suc split: if_splits)
    then show ?thesis unfolding M by simp
  qed
  show ?thesis
    using cur w u c last a1 a2 by (intro conjI allI impI) auto
qed

text \<open>
  Claim C8 as stated fails when \<open>M\<close> is a multiple of the ring length. After 1320 calls
  (\<open>M = 120\<close>), the last of them loud, the cursor has wrapped to 0 and the most recent
  capture (127) sits at index 119, while \<open>(M mod 120) - 1\<close> is \<open>-1\<close>.
\<close>

theorem waveform_index_counterexample:
  "length wave_input div 11 = 120 \<and>
   visWaveW (consume_all sink_init wave_input) = 0 \<and>
   sint (visWave (consume_all sink_init wave_input) ! 119) = 127 \<and>
   sint (visWave (consume_all sink_init wave_input) ! 0) = 0 \<and>
   int (length wave_input div 11 mod 120) - 1 = - 1"
proof -
  have len: "length wave_input = 1320"
    by (simp add: wave_input_def)
  have acc: "\<forall>e\<in>set wave_input. aCmd (fst e) = ACMD_NONE"
    by (auto simp: wave_input_def player_init_def)
  have r: "waveSub sink_init = 0" "visWaveW sink_init = 0" "length (visWave sink_init) = 120"
    "gainF2P6 sink_init = 64"
    by (simp_all add: sink_init_def)
  note inv = wave_invariant [OF acc r(1-3), unfolded len r(4)]
  have cur: "visWaveW (consume_all sink_init wave_input) = 0"
    using inv by simp
  have e_last: "wave_input ! (11 * 119 + 10) = (player_init, (0x7F00, 0x7F00))"
    using nth_append_length [of "replicate 1319 (player_init, (0, 0))"
        "(player_init, (0x7F00, 0x7F00))" "[]"]
    by (simp add: wave_input_def)
  have e_first: "wave_input ! (11 * 0 + 10) = (player_init, (0, 0))"
    by (simp add: wave_input_def nth_append)
  have b_last: "sint (wave_byte 64 (player_init, (0x7F00, 0x7F00))) = 127"
    by code_simp
  have b_first: "sint (wave_byte 64 (player_init, (0, 0))) = 0"
    by code_simp
  have "visWave (consume_all sink_init wave_input) ! (119 mod 120) =
        wave_byte 64 (wave_input ! (11 * 119 + 10))"
    using inv [THEN conjunct2, THEN conjunct2, THEN conjunct2, THEN conjunct1, rule_format, of 119]
    by simp
  then have v_last: "sint (visWave (consume_all sink_init wave_input) ! 119) = 127"
    unfolding e_last using b_last by simp
  have "visWave (consume_all sink_init wave_input) ! (0 mod 120) =
        wave_byte 64 (wave_input ! (11 * 0 + 10))"
    using inv [THEN conjunct2, THEN conjunct2, THEN conjunct2, THEN conjunct1, rule_format, of 0]
    by simp
  then have v_first: "sint (visWave (consume_all sink_init wave_input) ! 0) = 0"
    unfolding e_first using b_first by simp
  show ?thesis
    using cur v_last v_first by (simp add: len)
qed

text \<open>
  Instance of C8 (amended): \<open>M = 120\<close> (most recent capture at index 119) and \<open>M = 3\<close>
  (cursor 3, most recent capture at index 2, slot 3 untouched).
\<close>

theorem waveform_after_samples_witness:
  "visWaveW (consume_all sink_init wave_input) = 0 \<and>
   sint (visWave (consume_all sink_init wave_input) ! 119) = 127 \<and>
   visWaveW (consume_all sink_init (take 33 wave_input)) = 3 \<and>
   visWave (consume_all sink_init (take 33 wave_input)) ! 2 = 0 \<and>
   visWave (consume_all sink_init (take 33 wave_input)) ! 3 = visWave sink_init ! 3"
proof -
  have len: "length wave_input = 1320" "length (take 33 wave_input) = 33"
    by (simp_all add: wave_input_def)
  have acc: "\<forall>e\<in>set wave_input. aCmd (fst e) = ACMD_NONE"
    by (auto simp: wave_input_def player_init_def)
  then have acc': "\<forall>e\<in>set (take 33 wave_input). aCmd (fst e) = ACMD_NONE"
    using set_take_subset [of 33 wave_input] by blast
  have r: "waveSub sink_init = 0" "visWaveW sink_init = 0" "length (visWave sink_init) = 120"
    "gainF2P6 sink_init = 64"
    by (simp_all add: sink_init_def)
  have m: "120 = length wave_input div 11" "3 = length (take 33 wave_input) div 11"
    by (simp_all add: len)
  note full = waveform_after_samples [OF acc r(1-3) m(1), unfolded r(4)]
  note part = waveform_after_samples [OF acc' r(1-3) m(2), unfolded r(4)]
  have e_last: "wave_input ! (11 * (120 - 1) + 10) = (player_init, (0x7F00, 0x7F00))"
    using nth_append_length [of "replicate 1319 (player_init, (0, 0))"
        "(player_init, (0x7F00, 0x7F00))" "[]"]
    by (simp add: wave_input_def)
  have e_third: "take 33 wave_input ! (11 * (3 - 1) + 10) = (player_init, (0, 0))"
    by (simp add: wave_input_def nth_append)
  have b_last: "sint (wave_byte 64 (player_init, (0x7F00, 0x7F00))) = 127"
    by code_simp
  have b_zero: "wave_byte 64 (player_init, (0, 0)) = 0"
    by code_simp
  have a: "visWaveW (consume_all sink_init wave_input) = 0"
    using full [THEN conjunct1] by simp
  have "visWave (consume_all sink_init wave_input) ! ((120 - 1) mod 120) =
        wave_byte 64 (wave_input ! (11 * (120 - 1) + 10))"
    using full [THEN conjunct2, THEN conjunct2, THEN conjunct2, THEN conjunct2] by simp
  then have b: "sint (visWave (consume_all sink_init wave_input) ! 119) = 127"
    unfolding e_last using b_last by simp
  have c: "visWaveW (consume_all sink_init (take 33 wave_input)) = 3"
    using part [THEN conjunct1] by simp
  have "visWave (consume_all sink_init (take 33 wave_input)) ! ((3 - 1) mod 120) =
        wave_byte 64 (take 33 wave_input ! (11 * (3 - 1) + 10))"
    using part [THEN conjunct2, THEN conjunct2, THEN conjunct2, THEN conjunct2] by simp
  then have d: "visWave (consume_all sink_init (take 33 wave_input)) ! 2 = 0"
    unfolding e_third b_zero by simp
  have e: "visWave (consume_all sink_init (take 33 wave_input)) ! 3 = visWave sink_init ! 3"
    using part [THEN conjunct2, THEN conjunct2, THEN conjunct2, THEN conjunct1, rule_format, of 3]
    by simp
  show ?thesis using a b c d e by (intro conjI)
qed

end
